theory Spec2Isabelle
  imports Main
begin

section \<open>Duck: a small version-control engine\<close>

text \<open>
  The program is one JavaScript class, \<open>Duck\<close>, whose methods read and write three
  things under \<open>.duck\<close>: the file \<open>HEAD\<close>, the file \<open>index\<close> and the directory
  \<open>objects\<close>. Blobs and commit records are both files of \<open>objects\<close>, named by the
  SHA-1 digest of their text; commit records and the index are JSON texts.

  The embedding keeps that shape. A repository is a record of the files; each method is a
  function from a repository to an outcome and the repository it leaves behind, so that an
  exception keeps the writes made before it. \<open>JSON.stringify\<close> and \<open>JSON.parse\<close> are
  modelled on texts, after their definition in ECMAScript, since the program stores texts
  and parses whatever text it finds under a name.

  Every command of the program builds a \<open>Duck\<close>, whose constructor starts \<open>init\<close> and
  does not wait for it. The methods are embedded one by one; what a command does is the
  method run on the repository that \<open>init\<close> leaves, and the overlap of the two is left
  out.
\<close>

subsection \<open>JSON values and \<open>JSON.stringify\<close>\<close>

text \<open>
  Texts are byte strings (the UTF-8 form in which Node writes and hashes them). A number
  keeps the literal it was read from and is written back as that literal: the program
  itself never writes a number, and the arithmetic of doubles is left out.
\<close>

datatype json = JNull | JBool bool | JNum string | JString string
  | JArray "json list" | JObject "(string \<times> json) list"

text \<open>
  \<open>JSON.stringify\<close> quotes a string and escapes the quote, the backslash and the control
  characters below U+0020 (the short forms for backspace, form feed, line feed, carriage
  return and tab, otherwise four lower-case hexadecimal digits). Arrays and objects are
  written without white space, members in property order.
\<close>

definition hexdigit :: "nat \<Rightarrow> char" where
  "hexdigit n = ''0123456789abcdef'' ! n"

definition escape_char :: "char \<Rightarrow> string" where
  "escape_char c =
     (if c = CHR 0x22 then [CHR 0x5C, CHR 0x22]
      else if c = CHR 0x5C then [CHR 0x5C, CHR 0x5C]
      else if c = CHR 0x08 then [CHR 0x5C, CHR ''b'']
      else if c = CHR 0x0C then [CHR 0x5C, CHR ''f'']
      else if c = CHR 0x0A then [CHR 0x5C, CHR ''n'']
      else if c = CHR 0x0D then [CHR 0x5C, CHR ''r'']
      else if c = CHR 0x09 then [CHR 0x5C, CHR ''t'']
      else if (of_char c :: nat) < 32
        then [CHR 0x5C, CHR ''u'', CHR ''0'', CHR ''0'',
              hexdigit (of_char c div 16), hexdigit (of_char c mod 16)]
      else [c])"

definition quote :: "string \<Rightarrow> string" where
  "quote s = CHR 0x22 # concat (map escape_char s) @ [CHR 0x22]"

fun join_commas :: "string list \<Rightarrow> string" where
  "join_commas [] = []"
| "join_commas [x] = x"
| "join_commas (x # y # ys) = x @ CHR '','' # join_commas (y # ys)"

fun JSON_stringify :: "json \<Rightarrow> string" where
  "JSON_stringify JNull = ''null''"
| "JSON_stringify (JBool b) = (if b then ''true'' else ''false'')"
| "JSON_stringify (JNum l) = l"
| "JSON_stringify (JString s) = quote s"
| "JSON_stringify (JArray vs) = CHR ''['' # join_commas (map JSON_stringify vs) @ '']''"
| "JSON_stringify (JObject kvs) =
     CHR ''{'' # join_commas (map (\<lambda>(k, v). quote k @ CHR '':'' # JSON_stringify v) kvs) @ ''}''"

subsection \<open>\<open>JSON.parse\<close>\<close>

text \<open>
  A recursive-descent reader of the JSON grammar: white space, the three literals, numbers,
  strings with their escapes, arrays and objects. It returns the value read and the rest
  of the text; \<open>None\<close> is the \<open>SyntaxError\<close> of \<open>JSON.parse\<close>. Each nested call
  spends one unit of fuel, and \<open>JSON_parse\<close> starts with more fuel than the text has
  characters.

  An escape \<open>\uXXXX\<close> is decoded to the UTF-8 bytes of the character; a surrogate pair is
  one character, and a surrogate without its partner is read as U+FFFD, the bytes Node
  writes for it.
\<close>

definition is_ws :: "char \<Rightarrow> bool" where
  "is_ws c = (c = CHR '' '' \<or> c = CHR 0x09 \<or> c = CHR 0x0A \<or> c = CHR 0x0D)"

fun skip_ws :: "string \<Rightarrow> string" where
  "skip_ws [] = []"
| "skip_ws (c # cs) = (if is_ws c then skip_ws cs else c # cs)"

definition is_digit :: "char \<Rightarrow> bool" where
  "is_digit c = (48 \<le> (of_char c :: nat) \<and> (of_char c :: nat) \<le> 57)"

definition hexval :: "char \<Rightarrow> nat option" where
  "hexval c =
     (let n = (of_char c :: nat) in
      if 48 \<le> n \<and> n \<le> 57 then Some (n - 48)
      else if 97 \<le> n \<and> n \<le> 102 then Some (n - 87)
      else if 65 \<le> n \<and> n \<le> 70 then Some (n - 55)
      else None)"

definition hex4 :: "string \<Rightarrow> nat option" where
  "hex4 s =
     (case map hexval s of
        [Some a, Some b, Some c, Some d] \<Rightarrow> Some (((a * 16 + b) * 16 + c) * 16 + d)
      | _ \<Rightarrow> None)"

definition utf8 :: "nat \<Rightarrow> string" where
  "utf8 n =
     (if n < 0x80 then [char_of n]
      else if n < 0x800 then [char_of (0xC0 + n div 64), char_of (0x80 + n mod 64)]
      else if n < 0x10000 then
        [char_of (0xE0 + n div 4096), char_of (0x80 + n div 64 mod 64), char_of (0x80 + n mod 64)]
      else
        [char_of (0xF0 + n div 262144), char_of (0x80 + n div 4096 mod 64),
         char_of (0x80 + n div 64 mod 64), char_of (0x80 + n mod 64)])"

definition unescape :: "char \<Rightarrow> char option" where
  "unescape e =
     (if e = CHR 0x22 then Some (CHR 0x22)
      else if e = CHR 0x5C then Some (CHR 0x5C)
      else if e = CHR ''/'' then Some (CHR ''/'')
      else if e = CHR ''b'' then Some (CHR 0x08)
      else if e = CHR ''f'' then Some (CHR 0x0C)
      else if e = CHR ''n'' then Some (CHR 0x0A)
      else if e = CHR ''r'' then Some (CHR 0x0D)
      else if e = CHR ''t'' then Some (CHR 0x09)
      else None)"

definition low_surrogate :: "string \<Rightarrow> nat option" where
  "low_surrogate s =
     (if take 2 s = [CHR 0x5C, CHR ''u''] then
        (case hex4 (take 4 (drop 2 s)) of
           None \<Rightarrow> None
         | Some l \<Rightarrow> if 0xDC00 \<le> l \<and> l < 0xE000 then Some l else None)
      else None)"

fun parse_string_body :: "string \<Rightarrow> (string \<times> string) option" where
  "parse_string_body [] = None"
| "parse_string_body (c # cs) =
     (if c = CHR 0x22 then Some ([], cs)
      else if c = CHR 0x5C then
        (case cs of
           [] \<Rightarrow> None
         | e # es \<Rightarrow>
            if e = CHR ''u'' then
              (case hex4 (take 4 es) of
                 None \<Rightarrow> None
               | Some h \<Rightarrow>
                  if 0xD800 \<le> h \<and> h < 0xDC00 then
                    (case low_surrogate (drop 4 es) of
                       Some l \<Rightarrow>
                        map_option (\<lambda>(t, r). (utf8 (0x10000 + (h - 0xD800) * 1024 + (l - 0xDC00)) @ t, r))
                          (parse_string_body (drop 10 es))
                     | None \<Rightarrow>
                        map_option (\<lambda>(t, r). (utf8 0xFFFD @ t, r)) (parse_string_body (drop 4 es)))
                  else if 0xDC00 \<le> h \<and> h < 0xE000 then
                    map_option (\<lambda>(t, r). (utf8 0xFFFD @ t, r)) (parse_string_body (drop 4 es))
                  else map_option (\<lambda>(t, r). (utf8 h @ t, r)) (parse_string_body (drop 4 es)))
            else
              (case unescape e of
                 None \<Rightarrow> None
               | Some u \<Rightarrow> map_option (\<lambda>(t, r). (u # t, r)) (parse_string_body es)))
      else if (of_char c :: nat) < 32 then None
      else map_option (\<lambda>(t, r). (c # t, r)) (parse_string_body cs))"

definition digits1 :: "string \<Rightarrow> (string \<times> string) option" where
  "digits1 s = (if takeWhile is_digit s = [] then None
                else Some (takeWhile is_digit s, dropWhile is_digit s))"

definition parse_int :: "string \<Rightarrow> (string \<times> string) option" where
  "parse_int s =
     (case s of
        [] \<Rightarrow> None
      | c # cs \<Rightarrow> if c = CHR ''0'' then Some ([c], cs) else digits1 s)"

definition parse_frac :: "string \<Rightarrow> (string \<times> string) option" where
  "parse_frac s =
     (case s of
        [] \<Rightarrow> Some ([], s)
      | c # cs \<Rightarrow>
         if c = CHR ''.'' then map_option (\<lambda>(d, r). (c # d, r)) (digits1 cs)
         else Some ([], s))"

definition parse_exp :: "string \<Rightarrow> (string \<times> string) option" where
  "parse_exp s =
     (case s of
        [] \<Rightarrow> Some ([], s)
      | c # cs \<Rightarrow>
         if c = CHR ''e'' \<or> c = CHR ''E'' then
           (case cs of
              [] \<Rightarrow> None
            | d # ds \<Rightarrow>
               if d = CHR ''+'' \<or> d = CHR ''-''
               then map_option (\<lambda>(x, r). (c # d # x, r)) (digits1 ds)
               else map_option (\<lambda>(x, r). (c # x, r)) (digits1 cs))
         else Some ([], s))"

definition parse_number :: "string \<Rightarrow> (string \<times> string) option" where
  "parse_number s =
     (let (sign, s1) = (case s of c # cs \<Rightarrow> if c = CHR ''-'' then ([c], cs) else ([], s) | [] \<Rightarrow> ([], s))
      in case parse_int s1 of
           None \<Rightarrow> None
         | Some (i, s2) \<Rightarrow>
            (case parse_frac s2 of
               None \<Rightarrow> None
             | Some (f, s3) \<Rightarrow>
                (case parse_exp s3 of
                   None \<Rightarrow> None
                 | Some (e, s4) \<Rightarrow> Some (sign @ i @ f @ e, s4))))"

text \<open>
  A repeated key keeps its first position and takes the last value, as assignment to an
  existing property of a JavaScript object does. (JavaScript lists keys that are array
  indices before the others; the records of this program have no such key.)
\<close>

fun obj_put :: "(string \<times> json) list \<Rightarrow> string \<times> json \<Rightarrow> (string \<times> json) list" where
  "obj_put [] kv = [kv]"
| "obj_put (p # ps) kv = (if fst p = fst kv then (fst p, snd kv) # ps else p # obj_put ps kv)"

fun parse_value :: "nat \<Rightarrow> string \<Rightarrow> (json \<times> string) option"
and parse_elements :: "nat \<Rightarrow> string \<Rightarrow> (json list \<times> string) option"
and parse_members :: "nat \<Rightarrow> string \<Rightarrow> ((string \<times> json) list \<times> string) option"
where
  "parse_value 0 s = None"
| "parse_value (Suc n) s =
     (case skip_ws s of
        [] \<Rightarrow> None
      | c # cs \<Rightarrow>
         if c = CHR 0x22 then map_option (\<lambda>(t, r). (JString t, r)) (parse_string_body cs)
         else if c = CHR ''['' then
           (case skip_ws cs of
              [] \<Rightarrow> None
            | d # ds \<Rightarrow>
               if d = CHR '']'' then Some (JArray [], ds)
               else map_option (\<lambda>(vs, r). (JArray vs, r)) (parse_elements n cs))
         else if c = CHR ''{'' then
           (case skip_ws cs of
              [] \<Rightarrow> None
            | d # ds \<Rightarrow>
               if d = CHR ''}'' then Some (JObject [], ds)
               else map_option (\<lambda>(kvs, r). (JObject (foldl obj_put [] kvs), r)) (parse_members n cs))
         else if take 4 (c # cs) = ''null'' then Some (JNull, drop 4 (c # cs))
         else if take 4 (c # cs) = ''true'' then Some (JBool True, drop 4 (c # cs))
         else if take 5 (c # cs) = ''false'' then Some (JBool False, drop 5 (c # cs))
         else map_option (\<lambda>(l, r). (JNum l, r)) (parse_number (c # cs)))"
| "parse_elements 0 s = None"
| "parse_elements (Suc n) s =
     (case parse_value n s of
        None \<Rightarrow> None
      | Some (v, r) \<Rightarrow>
         (case skip_ws r of
            [] \<Rightarrow> None
          | c # cs \<Rightarrow>
             if c = CHR '','' then map_option (\<lambda>(vs, r'). (v # vs, r')) (parse_elements n cs)
             else if c = CHR '']'' then Some ([v], cs)
             else None))"
| "parse_members 0 s = None"
| "parse_members (Suc n) s =
     (case skip_ws s of
        [] \<Rightarrow> None
      | c # cs \<Rightarrow>
         if c = CHR 0x22 then
           (case parse_string_body cs of
              None \<Rightarrow> None
            | Some (k, r) \<Rightarrow>
               (case skip_ws r of
                  [] \<Rightarrow> None
                | d # ds \<Rightarrow>
                   if d = CHR '':'' then
                     (case parse_value n ds of
                        None \<Rightarrow> None
                      | Some (v, r') \<Rightarrow>
                         (case skip_ws r' of
                            [] \<Rightarrow> None
                          | e # es \<Rightarrow>
                             if e = CHR '','' then
                               map_option (\<lambda>(kvs, r''). ((k, v) # kvs, r'')) (parse_members n es)
                             else if e = CHR ''}'' then Some ([(k, v)], es)
                             else None))
                   else None))
         else None)"

definition JSON_parse :: "string \<Rightarrow> json option" where
  "JSON_parse s =
     (case parse_value (Suc (length s)) s of
        None \<Rightarrow> None
      | Some (v, r) \<Rightarrow> if skip_ws r = [] then Some v else None)"

subsection \<open>JavaScript values in the program\<close>

text \<open>
  A variable of the program holds a JSON value or \<open>undefined\<close> (\<open>None\<close>). The
  operations below are the ones the methods apply to such values: the truth test of
  \<open>if\<close> and \<open>while\<close>, property access, strict equality, \<open>Array.prototype.push\<close>,
  iteration, and the string argument that \<open>path.join\<close> insists on. Each raises
  \<open>TypeError\<close> where JavaScript does. Property access is for the six keys the program
  reads (\<open>timeStamp\<close>, \<open>message\<close>, \<open>files\<close>, \<open>parent\<close>, \<open>path\<close>, \<open>hash\<close>),
  which no built-in prototype defines. A number is truthy when its literal has a digit
  other than zero before the exponent, and two numbers are compared by their literals.
  Two arrays or two objects are never strictly equal here: they come from different calls
  of \<open>JSON.parse\<close>.
\<close>

datatype error = ENOENT | EEXIST | EISDIR | SyntaxError | TypeError

fun truthy :: "json option \<Rightarrow> bool" where
  "truthy None = False"
| "truthy (Some JNull) = False"
| "truthy (Some (JBool b)) = b"
| "truthy (Some (JNum l)) =
     list_ex (\<lambda>c. c \<in> set ''123456789'')
       (takeWhile (\<lambda>c. c \<noteq> CHR ''e'' \<and> c \<noteq> CHR ''E'') l)"
| "truthy (Some (JString s)) = (s \<noteq> [])"
| "truthy (Some (JArray vs)) = True"
| "truthy (Some (JObject kvs)) = True"

fun get_prop :: "json \<Rightarrow> string \<Rightarrow> error + json option" where
  "get_prop JNull k = Inl TypeError"
| "get_prop (JObject kvs) k = Inr (map_of kvs k)"
| "get_prop v k = Inr None"

definition prop_of :: "json option \<Rightarrow> string \<Rightarrow> error + json option" where
  "prop_of v k = (case v of None \<Rightarrow> Inl TypeError | Some j \<Rightarrow> get_prop j k)"

fun strict_eq :: "json option \<Rightarrow> json option \<Rightarrow> bool" where
  "strict_eq None None = True"
| "strict_eq (Some JNull) (Some JNull) = True"
| "strict_eq (Some (JBool a)) (Some (JBool b)) = (a = b)"
| "strict_eq (Some (JNum a)) (Some (JNum b)) = (a = b)"
| "strict_eq (Some (JString a)) (Some (JString b)) = (a = b)"
| "strict_eq a b = False"

definition array_push :: "json \<Rightarrow> json \<Rightarrow> error + json" where
  "array_push a x = (case a of JArray vs \<Rightarrow> Inr (JArray (vs @ [x])) | _ \<Rightarrow> Inl TypeError)"

definition iterate :: "json option \<Rightarrow> error + json list" where
  "iterate v =
     (case v of
        Some (JArray vs) \<Rightarrow> Inr vs
      | Some (JString s) \<Rightarrow> Inr (map (\<lambda>c. JString [c]) s)
      | _ \<Rightarrow> Inl TypeError)"

definition as_path :: "json option \<Rightarrow> error + string" where
  "as_path v = (case v of Some (JString s) \<Rightarrow> Inr s | _ \<Rightarrow> Inl TypeError)"

subsection \<open>The repository and the console\<close>

text \<open>
  \<open>work\<close> gives the bytes of a file of the working directory, by its path.
  \<open>objects\<close> gives, for a name \<open>h\<close>, the text of the file
  \<open>path.join(objectsPath, h)\<close>; the empty name is the directory itself. \<open>head_file\<close> and
  \<open>index_file\<close> are \<open>None\<close> while the file does not exist. The files under \<open>.duck\<close>
  are written by the program from texts and are held as texts. \<open>console\<close> collects what
  the methods print.

  The names the program writes under \<open>objects\<close> are digests. A name that is read may come
  from the command line or from a stored record; \<open>path.join\<close> takes a plain name to the
  file of that name in \<open>objects\<close>, and any other name (empty, \<open>.\<close>, \<open>..\<close>, or one
  with a separator or a NUL) elsewhere, and a name of more than 255 bytes is refused by the
  file system. So \<open>objects\<close> is exact for plain names, and what is stated about a name
  without an object is stated for plain names.
\<close>

definition plain_name :: "string \<Rightarrow> bool" where
  "plain_name h =
     (h \<noteq> [] \<and> h \<noteq> ''.'' \<and> h \<noteq> ''..'' \<and> length h \<le> 255 \<and>
      CHR ''/'' \<notin> set h \<and> CHR 0x5C \<notin> set h \<and> CHR 0x00 \<notin> set h)"

datatype event =
    AlreadyInitialised
  | Printed string
  | Added string
  | CommitCreated string
  | Separator
  | LogCommit string "json option" "json option"
  | FailedToRead error
  | CommitNotFound
  | ChangesHeader
  | FileHeader "json option"
  | Content string
  | DiffHeader
  | DiffLines string string
  | NewLine
  | NewFileInCommit
  | FirstCommit

record repo =
  work :: "string \<rightharpoonup> string"
  duck_dir :: bool
  objects_dir :: bool
  objects :: "string \<rightharpoonup> string"
  head_file :: "string option"
  index_file :: "string option"
  console :: "event list"

type_synonym 'a io = "repo \<Rightarrow> (error + 'a) \<times> repo"

definition io_return :: "'a \<Rightarrow> 'a io" where
  "io_return x s = (Inr x, s)"

definition io_bind :: "'a io \<Rightarrow> ('a \<Rightarrow> 'b io) \<Rightarrow> 'b io" where
  "io_bind m f s = (case m s of (Inl e, s') \<Rightarrow> (Inl e, s') | (Inr x, s') \<Rightarrow> f x s')"

definition io_catch :: "'a io \<Rightarrow> (error \<Rightarrow> 'a io) \<Rightarrow> 'a io" where
  "io_catch m h s = (case m s of (Inl e, s') \<Rightarrow> h e s' | (Inr x, s') \<Rightarrow> (Inr x, s'))"

definition lift :: "error + 'a \<Rightarrow> 'a io" where
  "lift r s = (r, s)"

definition console_log :: "event \<Rightarrow> unit io" where
  "console_log ev s = (Inr (), s\<lparr>console := console s @ [ev]\<rparr>)"

definition parse_text :: "string \<Rightarrow> json io" where
  "parse_text t = lift (case JSON_parse t of None \<Rightarrow> Inl SyntaxError | Some v \<Rightarrow> Inr v)"

definition mkdir_objects :: "unit io" where
  "mkdir_objects s = (Inr (), s\<lparr>duck_dir := True, objects_dir := True\<rparr>)"

text \<open>
  \<open>fs.readFile\<close> with the encoding \<open>utf-8\<close> decodes the bytes of the file: a well-formed
  sequence is kept, and every maximal ill-formed part becomes one U+FFFD (the bytes
  \<open>EF BF BD\<close> in the text). \<open>utf8_step b bs\<close> decodes the sequence that starts with the
  byte \<open>b\<close> and says how many of the bytes \<open>bs\<close> after it were used.
\<close>

definition in_range :: "nat \<Rightarrow> nat \<Rightarrow> char \<Rightarrow> bool" where
  "in_range lo hi c = (lo \<le> of_char c \<and> (of_char c :: nat) \<le> hi)"

definition replacement :: string where
  "replacement = [CHR 0xEF, CHR 0xBF, CHR 0xBD]"

definition second_lo :: "char \<Rightarrow> nat" where
  "second_lo b = (if b = CHR 0xE0 then 0xA0 else if b = CHR 0xF0 then 0x90 else 0x80)"

definition second_hi :: "char \<Rightarrow> nat" where
  "second_hi b = (if b = CHR 0xED then 0x9F else if b = CHR 0xF4 then 0x8F else 0xBF)"

definition utf8_step :: "char \<Rightarrow> string \<Rightarrow> string \<times> nat" where
  "utf8_step b bs =
     (if (of_char b :: nat) < 0x80 then ([b], 0)
      else if in_range 0xC2 0xDF b then
        (case bs of
           [] \<Rightarrow> (replacement, 0)
         | c1 # r1 \<Rightarrow>
            if in_range 0x80 0xBF c1 then ([b, c1], 1) else (replacement, 0))
      else if in_range 0xE0 0xEF b then
        (case bs of
           [] \<Rightarrow> (replacement, 0)
         | c1 # r1 \<Rightarrow>
            if \<not> in_range (second_lo b) (second_hi b) c1 then (replacement, 0)
            else
              (case r1 of
                 [] \<Rightarrow> (replacement, 1)
               | c2 # r2 \<Rightarrow>
                  if in_range 0x80 0xBF c2 then ([b, c1, c2], 2) else (replacement, 1)))
      else if in_range 0xF0 0xF4 b then
        (case bs of
           [] \<Rightarrow> (replacement, 0)
         | c1 # r1 \<Rightarrow>
            if \<not> in_range (second_lo b) (second_hi b) c1 then (replacement, 0)
            else
              (case r1 of
                 [] \<Rightarrow> (replacement, 1)
               | c2 # r2 \<Rightarrow>
                  if \<not> in_range 0x80 0xBF c2 then (replacement, 1)
                  else
                    (case r2 of
                       [] \<Rightarrow> (replacement, 2)
                     | c3 # r3 \<Rightarrow>
                        if in_range 0x80 0xBF c3 then ([b, c1, c2, c3], 3)
                        else (replacement, 2))))
      else (replacement, 0))"

fun utf8_decode :: "string \<Rightarrow> string" where
  "utf8_decode [] = []"
| "utf8_decode (b # bs) = fst (utf8_step b bs) @ utf8_decode (drop (snd (utf8_step b bs)) bs)"

text \<open>
  \<open>valid_utf8\<close>: the bytes are well-formed UTF-8, sequence by sequence
  (\<open>well_formed_at b bs\<close> gives the number of bytes that follow the lead byte \<open>b\<close>).
\<close>

definition well_formed_at :: "char \<Rightarrow> string \<Rightarrow> nat option" where
  "well_formed_at b bs =
     (if (of_char b :: nat) < 0x80 then Some 0
      else if in_range 0xC2 0xDF b then
        (case bs of
           c1 # r1 \<Rightarrow> if in_range 0x80 0xBF c1 then Some 1 else None
         | _ \<Rightarrow> None)
      else if in_range 0xE0 0xEF b then
        (case bs of
           c1 # c2 # r2 \<Rightarrow>
             if in_range (second_lo b) (second_hi b) c1 \<and> in_range 0x80 0xBF c2
             then Some 2 else None
         | _ \<Rightarrow> None)
      else if in_range 0xF0 0xF4 b then
        (case bs of
           c1 # c2 # c3 # r3 \<Rightarrow>
             if in_range (second_lo b) (second_hi b) c1 \<and> in_range 0x80 0xBF c2 \<and>
                in_range 0x80 0xBF c3
             then Some 3 else None
         | _ \<Rightarrow> None)
      else None)"

fun valid_utf8 :: "string \<Rightarrow> bool" where
  "valid_utf8 [] = True"
| "valid_utf8 (b # bs) =
     (case well_formed_at b bs of None \<Rightarrow> False | Some n \<Rightarrow> valid_utf8 (drop n bs))"

definition read_work :: "string \<Rightarrow> string io" where
  "read_work p s =
     (case work s p of None \<Rightarrow> (Inl ENOENT, s) | Some bytes \<Rightarrow> (Inr (utf8_decode bytes), s))"

definition read_object :: "string \<Rightarrow> string io" where
  "read_object name s =
     (if name = [] then (Inl (if objects_dir s then EISDIR else ENOENT), s)
      else case objects s name of None \<Rightarrow> (Inl ENOENT, s) | Some c \<Rightarrow> (Inr c, s))"

definition write_object :: "string \<Rightarrow> string \<Rightarrow> unit io" where
  "write_object name c s =
     (if \<not> objects_dir s then (Inl ENOENT, s)
      else if name = [] then (Inl EISDIR, s)
      else (Inr (), s\<lparr>objects := (objects s)(name \<mapsto> c)\<rparr>))"

definition read_head :: "string io" where
  "read_head s = (case head_file s of None \<Rightarrow> (Inl ENOENT, s) | Some c \<Rightarrow> (Inr c, s))"

definition write_head :: "string \<Rightarrow> unit io" where
  "write_head c s =
     (if duck_dir s then (Inr (), s\<lparr>head_file := Some c\<rparr>) else (Inl ENOENT, s))"

definition write_head_wx :: "string \<Rightarrow> unit io" where
  "write_head_wx c s =
     (if \<not> duck_dir s then (Inl ENOENT, s)
      else if head_file s \<noteq> None then (Inl EEXIST, s)
      else (Inr (), s\<lparr>head_file := Some c\<rparr>))"

definition read_index :: "string io" where
  "read_index s = (case index_file s of None \<Rightarrow> (Inl ENOENT, s) | Some c \<Rightarrow> (Inr c, s))"

definition write_index :: "string \<Rightarrow> unit io" where
  "write_index c s =
     (if duck_dir s then (Inr (), s\<lparr>index_file := Some c\<rparr>) else (Inl ENOENT, s))"

definition write_index_wx :: "string \<Rightarrow> unit io" where
  "write_index_wx c s =
     (if \<not> duck_dir s then (Inl ENOENT, s)
      else if index_file s \<noteq> None then (Inl EEXIST, s)
      else (Inr (), s\<lparr>index_file := Some c\<rparr>))"

subsection \<open>The methods of \<open>Duck\<close>\<close>

text \<open>
  \<open>init\<close>: make the directories, then create \<open>HEAD\<close> (empty) and \<open>index\<close> (the empty
  array) with the flag \<open>wx\<close>, which fails on an existing file; any failure of the two
  writes is caught and reported as "Already initialised".
\<close>

definition init :: "unit io" where
  "init =
     io_bind mkdir_objects (\<lambda>_.
     io_catch
       (io_bind (write_head_wx []) (\<lambda>_. write_index_wx (JSON_stringify (JArray []))))
       (\<lambda>e. console_log AlreadyInitialised))"

text \<open>
  \<open>hashObject\<close> is the hexadecimal SHA-1 digest of the text. The digest function comes
  from Node's \<open>crypto\<close> module and is a parameter here: \<open>sha1\<close>.
\<close>

definition hashObject :: "(string \<Rightarrow> string) \<Rightarrow> string \<Rightarrow> string" where
  "hashObject sha1 content = sha1 content"

definition updateStagingArea :: "string \<Rightarrow> string \<Rightarrow> unit io" where
  "updateStagingArea filePath fileHash =
     io_bind read_index (\<lambda>text.
     io_bind (parse_text text) (\<lambda>index.
     io_bind (lift (array_push index
        (JObject [(''path'', JString filePath), (''hash'', JString fileHash)]))) (\<lambda>index'.
     write_index (JSON_stringify index'))))"

definition add :: "(string \<Rightarrow> string) \<Rightarrow> string \<Rightarrow> unit io" where
  "add sha1 fileToBeAdded =
     io_bind (read_work fileToBeAdded) (\<lambda>fileData.
     let fileHash = hashObject sha1 fileData in
     io_bind (console_log (Printed fileHash)) (\<lambda>_.
     io_bind (write_object fileHash fileData) (\<lambda>_.
     io_bind (updateStagingArea fileToBeAdded fileHash) (\<lambda>_.
     console_log (Added fileToBeAdded)))))"

definition getCurrentHead :: "json io" where
  "getCurrentHead =
     io_catch (io_bind read_head (\<lambda>c. io_return (JString c))) (\<lambda>e. io_return JNull)"

text \<open>
  \<open>commit\<close> takes the reading of the clock, \<open>new Date().toISOString()\<close>, as \<open>now\<close>.
\<close>

definition commit :: "(string \<Rightarrow> string) \<Rightarrow> string \<Rightarrow> string \<Rightarrow> unit io" where
  "commit sha1 now message =
     io_bind read_index (\<lambda>text.
     io_bind (parse_text text) (\<lambda>index.
     io_bind getCurrentHead (\<lambda>parentCommit.
     let commitData = JObject
           [(''timeStamp'', JString now), (''message'', JString message),
            (''files'', index), (''parent'', parentCommit)];
         commitHash = hashObject sha1 (JSON_stringify commitData) in
     io_bind (write_object commitHash (JSON_stringify commitData)) (\<lambda>_.
     io_bind (write_head commitHash) (\<lambda>_.
     io_bind (write_index (JSON_stringify (JArray []))) (\<lambda>_.
     console_log (CommitCreated commitHash)))))))"

text \<open>
  \<open>log\<close>: one round of the \<open>while\<close> loop reads and parses the object named by the
  current hash, prints it and yields its \<open>parent\<close>. The loop runs while that value is
  truthy; on a chain of parents that never ends it does not return (\<open>None\<close>).
\<close>

definition log_step :: "json option \<Rightarrow> (json option) io" where
  "log_step currentCommitHash =
     io_bind (lift (as_path currentCommitHash)) (\<lambda>name.
     io_bind (read_object name) (\<lambda>text.
     io_bind (parse_text text) (\<lambda>commitData.
     io_bind (console_log Separator) (\<lambda>_.
     io_bind (lift (get_prop commitData ''timeStamp'')) (\<lambda>timeStamp.
     io_bind (lift (get_prop commitData ''message'')) (\<lambda>message.
     io_bind (console_log (LogCommit name timeStamp message)) (\<lambda>_.
     lift (get_prop commitData ''parent''))))))))"

partial_function (option) log_loop :: "json option \<Rightarrow> repo \<Rightarrow> ((error + unit) \<times> repo) option" where
  "log_loop currentCommitHash s =
     (if truthy currentCommitHash then
        (case log_step currentCommitHash s of
           (Inl e, s') \<Rightarrow> Some (Inl e, s')
         | (Inr parent, s') \<Rightarrow> log_loop parent s')
      else Some (Inr (), s))"

declare log_loop.simps [code]

definition log :: "repo \<Rightarrow> ((error + unit) \<times> repo) option" where
  "log s =
     (case getCurrentHead s of
        (Inl e, s') \<Rightarrow> Some (Inl e, s')
      | (Inr currentCommitHash, s') \<Rightarrow> log_loop (Some currentCommitHash) s')"

text \<open>
  \<open>getCommitData\<close> joins the path before its \<open>try\<close>, so a hash that is not a string
  raises; a failed read is caught, reported, and answered with \<open>null\<close> (\<open>None\<close> here).
  \<open>JSON.parse\<close> turns its argument into a string first, so that \<open>null\<close> is parsed as the
  text \<open>null\<close>: \<open>parse_nullable\<close>.
\<close>

definition getCommitData :: "json option \<Rightarrow> (string option) io" where
  "getCommitData commitHash =
     io_bind (lift (as_path commitHash)) (\<lambda>name.
     io_catch (io_bind (read_object name) (\<lambda>text. io_return (Some text)))
       (\<lambda>e. io_bind (console_log (FailedToRead e)) (\<lambda>_. io_return None)))"

definition parse_nullable :: "string option \<Rightarrow> json io" where
  "parse_nullable t = parse_text (case t of None \<Rightarrow> ''null'' | Some text \<Rightarrow> text)"

definition getFileContent :: "json option \<Rightarrow> string io" where
  "getFileContent fileHash = io_bind (lift (as_path fileHash)) read_object"

text \<open>
  \<open>Array.prototype.find\<close> with the test \<open>file.path === filePath\<close>: the first element
  that passes, \<open>undefined\<close> when none does.
\<close>

fun find_file :: "json list \<Rightarrow> json option \<Rightarrow> error + json option" where
  "find_file [] filePath = Inr None"
| "find_file (file # rest) filePath =
     (case get_prop file ''path'' of
        Inl e \<Rightarrow> Inl e
      | Inr p \<Rightarrow> if strict_eq p filePath then Inr (Some file) else find_file rest filePath)"

definition getParentFileContent :: "json \<Rightarrow> json option \<Rightarrow> (string option) io" where
  "getParentFileContent parentCommitData filePath =
     io_bind (lift (get_prop parentCommitData ''files'')) (\<lambda>files.
     io_bind (lift (case files of Some (JArray vs) \<Rightarrow> find_file vs filePath
                                | _ \<Rightarrow> Inl TypeError)) (\<lambda>parentFile.
     if truthy parentFile then
       io_bind (lift (prop_of parentFile ''hash'')) (\<lambda>h.
       io_bind (getFileContent h) (\<lambda>content. io_return (Some content)))
     else io_return None))"

text \<open>
  The body of the \<open>for\<close> loop of \<open>showCommitDiff\<close>, for one \<open>file\<close>. \<open>DiffLines a b\<close>
  stands for the coloured rendering of \<open>diffLines(a, b)\<close>.
\<close>

definition show_file :: "json \<Rightarrow> json \<Rightarrow> unit io" where
  "show_file commitData file =
     io_bind (lift (get_prop file ''path'')) (\<lambda>filePath.
     io_bind (console_log (FileHeader filePath)) (\<lambda>_.
     io_bind (lift (get_prop file ''hash'')) (\<lambda>fileHash.
     io_bind (getFileContent fileHash) (\<lambda>fileContent.
     io_bind (console_log (Content fileContent)) (\<lambda>_.
     io_bind (lift (get_prop commitData ''parent'')) (\<lambda>parent.
     if truthy parent then
       io_bind (getCommitData parent) (\<lambda>raw.
       io_bind (parse_nullable raw) (\<lambda>parentCommitData.
       io_bind (getParentFileContent parentCommitData filePath) (\<lambda>before.
       case before of
         Some parentContent \<Rightarrow>
           io_bind (console_log DiffHeader) (\<lambda>_.
           io_bind (console_log (DiffLines parentContent fileContent)) (\<lambda>_.
           console_log NewLine))
       | None \<Rightarrow> console_log NewFileInCommit)))
     else console_log FirstCommit))))))"

fun show_files :: "json \<Rightarrow> json list \<Rightarrow> unit io" where
  "show_files commitData [] = io_return ()"
| "show_files commitData (file # rest) =
     io_bind (show_file commitData file) (\<lambda>_. show_files commitData rest)"

definition showCommitDiff :: "string \<Rightarrow> unit io" where
  "showCommitDiff commitHash =
     io_bind (getCommitData (Some (JString commitHash))) (\<lambda>raw.
     io_bind (parse_nullable raw) (\<lambda>commitData.
     if \<not> truthy (Some commitData) then console_log CommitNotFound
     else
       io_bind (console_log ChangesHeader) (\<lambda>_.
       io_bind (lift (get_prop commitData ''files'')) (\<lambda>files.
       io_bind (lift (iterate files)) (\<lambda>fileList.
       show_files commitData fileList)))))"

subsection \<open>Records as the program writes them\<close>

text \<open>
  The shape of a staging entry, of the index and of a commit record, for stating what a
  repository holds. A staged entry is a pair of a path and a hash.
\<close>

definition entry_json :: "string \<times> string \<Rightarrow> json" where
  "entry_json e = JObject [(''path'', JString (fst e)), (''hash'', JString (snd e))]"

definition index_json :: "(string \<times> string) list \<Rightarrow> json" where
  "index_json es = JArray (map entry_json es)"

definition commit_json :: "string \<Rightarrow> string \<Rightarrow> (string \<times> string) list \<Rightarrow> json \<Rightarrow> json" where
  "commit_json timeStamp message files parent =
     JObject [(''timeStamp'', JString timeStamp), (''message'', JString message),
              (''files'', index_json files), (''parent'', parent)]"

text \<open>
  An initialised repository: the directories and \<open>HEAD\<close> exist, and \<open>index\<close> holds the
  entries \<open>es\<close> as the program writes them.
\<close>

definition initialised :: "repo \<Rightarrow> (string \<times> string) list \<Rightarrow> bool" where
  "initialised s es =
     (duck_dir s \<and> objects_dir s \<and> head_file s \<noteq> None \<and>
      index_file s = Some (JSON_stringify (index_json es)))"

text \<open>The index as a reader of the repository sees it: the parsed text of the file.\<close>

definition staged :: "repo \<Rightarrow> json option" where
  "staged s = (case index_file s of None \<Rightarrow> None | Some t \<Rightarrow> JSON_parse t)"

definition fresh :: "(string \<rightharpoonup> string) \<Rightarrow> repo" where
  "fresh w = \<lparr>work = w, duck_dir = False, objects_dir = False, objects = Map.empty,
              head_file = None, index_file = None, console = []\<rparr>"


subsection \<open>The digest\<close>

text \<open>
  The digest is forty hexadecimal characters. Every name that the program writes under
  \<open>objects\<close> is a digest, hence a plain file name: the files of \<open>objects\<close> are apart
  from one another and from \<open>HEAD\<close> and \<open>index\<close>.
\<close>

definition hex_digest :: "(string \<Rightarrow> string) \<Rightarrow> bool" where
  "hex_digest sha1 =
     (\<forall>x. length (sha1 x) = 40 \<and> set (sha1 x) \<subseteq> set ''0123456789abcdef'')"

text \<open>
  A stand-in for the digest in the examples: the last twenty bytes of the text in
  hexadecimal, the last byte first, padded with zeros.
\<close>

definition hex2 :: "char \<Rightarrow> string" where
  "hex2 c = [hexdigit (of_char c div 16), hexdigit (of_char c mod 16)]"

definition toy_digest :: "string \<Rightarrow> string" where
  "toy_digest x = take 40 (concat (map hex2 (rev x)) @ replicate 40 CHR ''0'')"

subsection \<open>Commit records in the store\<close>

text \<open>
  Whether a name of the store leads to a commit record: a JSON object with the four
  fields of \<open>commitData\<close>.
\<close>

definition is_commit_record :: "json \<Rightarrow> bool" where
  "is_commit_record j =
     (case j of
        JObject kvs \<Rightarrow> map fst kvs = [''timeStamp'', ''message'', ''files'', ''parent'']
      | _ \<Rightarrow> False)"

definition addresses_commit :: "repo \<Rightarrow> string \<Rightarrow> bool" where
  "addresses_commit s h =
     (case objects s h of
        None \<Rightarrow> False
      | Some t \<Rightarrow> (case JSON_parse t of None \<Rightarrow> False | Some j \<Rightarrow> is_commit_record j))"

text \<open>
  What \<open>showCommitDiff\<close> prints for the files of a commit that has no parent: for each
  entry its path, the text of its blob, and "First commit".
\<close>

definition first_commit_lines :: "repo \<Rightarrow> (string \<times> string) list \<Rightarrow> event list" where
  "first_commit_lines s es =
     concat (map (\<lambda>e. case objects s (snd e) of
                         None \<Rightarrow> []
                       | Some c \<Rightarrow> [FileHeader (Some (JString (fst e))), Content c, FirstCommit]) es)"

subsection \<open>A run of commits\<close>

text \<open>
  \<open>commits\<close> runs \<open>commit\<close> once for each pair of a clock reading and a message, in
  order. \<open>chain\<close> lists what those commits write when \<open>HEAD\<close> held \<open>h0\<close> before the
  first and nothing was staged: for each commit its hash, time stamp, message and parent
  hash, the newest first.
\<close>

fun commits :: "(string \<Rightarrow> string) \<Rightarrow> (string \<times> string) list \<Rightarrow> repo \<Rightarrow> repo" where
  "commits sha1 [] s = s"
| "commits sha1 (c # cs) s = commits sha1 cs (snd (commit sha1 (fst c) (snd c) s))"

fun chain ::
  "(string \<Rightarrow> string) \<Rightarrow> string \<Rightarrow> (string \<times> string) list
    \<Rightarrow> (string \<times> string \<times> string \<times> string) list" where
  "chain sha1 h0 [] = []"
| "chain sha1 h0 (c # cs) =
     chain sha1
       (hashObject sha1 (JSON_stringify (commit_json (fst c) (snd c) [] (JString h0)))) cs
     @ [(hashObject sha1 (JSON_stringify (commit_json (fst c) (snd c) [] (JString h0))),
         fst c, snd c, h0)]"

text \<open>
  \<open>stored s rs\<close>: every record of \<open>rs\<close> is in the store under its hash, with its parent
  written as a string. \<open>linked rs h0\<close>: the parent of each record is the hash of the next
  one, and the parent of the last is \<open>h0\<close>. \<open>log_lines rs\<close>: what \<open>log\<close> prints for
  the records, in their order.
\<close>

definition stored :: "repo \<Rightarrow> (string \<times> string \<times> string \<times> string) list \<Rightarrow> bool" where
  "stored s rs =
     list_all (\<lambda>(h, t, m, p).
       objects s h = Some (JSON_stringify (commit_json t m [] (JString p)))) rs"

fun linked :: "(string \<times> string \<times> string \<times> string) list \<Rightarrow> string \<Rightarrow> bool" where
  "linked [] h0 = True"
| "linked [(h, t, m, p)] h0 = (p = h0)"
| "linked ((h, t, m, p) # r # rs) h0 = (p = fst r \<and> linked (r # rs) h0)"

definition log_lines :: "(string \<times> string \<times> string \<times> string) list \<Rightarrow> event list" where
  "log_lines rs =
     concat (map (\<lambda>(h, t, m, p).
       [Separator, LogCommit h (Some (JString t)) (Some (JString m))]) rs)"

subsection \<open>A history in the store\<close>

text \<open>
  A stored commit is its hash, time stamp, message and files. \<open>holds s c par\<close>: the
  store has, under the plain name that is the hash of \<open>c\<close>, the record of \<open>c\<close> with the
  parent \<open>par\<close>. \<open>history s cs par\<close>: the commits \<open>cs\<close> are in the store, each with the
  hash of the next as its parent, and the last with the parent \<open>par\<close>.
  \<open>history_lines cs\<close>: what \<open>log\<close> prints for them, in their order.
\<close>

type_synonym stored_commit = "string \<times> string \<times> string \<times> (string \<times> string) list"

definition holds :: "repo \<Rightarrow> stored_commit \<Rightarrow> json \<Rightarrow> bool" where
  "holds s c par =
     (case c of (h, t, m, es) \<Rightarrow>
        plain_name h \<and> objects s h = Some (JSON_stringify (commit_json t m es par)))"

fun history :: "repo \<Rightarrow> stored_commit list \<Rightarrow> json \<Rightarrow> bool" where
  "history s [] par = True"
| "history s [c] par = holds s c par"
| "history s (c # d # cs) par = (holds s c (JString (fst d)) \<and> history s (d # cs) par)"

definition history_lines :: "stored_commit list \<Rightarrow> event list" where
  "history_lines cs =
     concat (map (\<lambda>(h, t, m, es).
       [Separator, LogCommit h (Some (JString t)) (Some (JString m))]) cs)"

subsection \<open>Example repositories\<close>

text \<open>
  A repository after \<open>init\<close> and \<open>add a.txt\<close>, where \<open>a.txt\<close> holds one line,
  \<open>hello\<close>; the blob has the SHA-1 name of that text.
\<close>

definition blob_repo :: repo where
  "blob_repo =
     \<lparr>work = [''a.txt'' \<mapsto> ''hello\<newline>''], duck_dir = True, objects_dir = True,
      objects = [''f572d396fae9206628714fb2ce00f72e94f2258f'' \<mapsto> ''hello\<newline>''],
      head_file = Some [],
      index_file = Some (JSON_stringify
        (index_json [(''a.txt'', ''f572d396fae9206628714fb2ce00f72e94f2258f'')])),
      console = []\<rparr>"

text \<open>
  A store with one commit record: no file, and a parent that names no object.
\<close>

definition dangling_repo :: repo where
  "dangling_repo =
     \<lparr>work = Map.empty, duck_dir = True, objects_dir = True,
      objects = [''1111111111111111111111111111111111111111'' \<mapsto>
        JSON_stringify (commit_json ''2024-01-01T00:00:00.000Z'' ''m'' []
          (JString ''2222222222222222222222222222222222222222''))],
      head_file = Some ''1111111111111111111111111111111111111111'',
      index_file = Some (JSON_stringify (JArray [])),
      console = []\<rparr>"

text \<open>
  A commit record with one file, \<open>a.txt\<close>, and the same dangling parent: first with the
  blob of the file in the store, then without it.
\<close>

definition one_file_commit :: string where
  "one_file_commit =
     JSON_stringify (commit_json ''2024-01-01T00:00:00.000Z'' ''m''
       [(''a.txt'', ''f572d396fae9206628714fb2ce00f72e94f2258f'')]
       (JString ''2222222222222222222222222222222222222222''))"

definition dangling_parent_repo :: repo where
  "dangling_parent_repo =
     dangling_repo\<lparr>objects :=
       [''1111111111111111111111111111111111111111'' \<mapsto> one_file_commit,
        ''f572d396fae9206628714fb2ce00f72e94f2258f'' \<mapsto> ''hello\<newline>'']\<rparr>"

definition dangling_blob_repo :: repo where
  "dangling_blob_repo =
     dangling_repo\<lparr>objects :=
       [''1111111111111111111111111111111111111111'' \<mapsto> one_file_commit]\<rparr>"

text \<open>
  The same commit with its blob, under a newer commit that lists no file: the parent
  without an object is two commits down from \<open>HEAD\<close>.
\<close>

definition deep_dangling_repo :: repo where
  "deep_dangling_repo =
     dangling_repo\<lparr>objects :=
       [''3333333333333333333333333333333333333333'' \<mapsto>
          JSON_stringify (commit_json ''2024-01-02T00:00:00.000Z'' ''c2'' []
            (JString ''1111111111111111111111111111111111111111'')),
        ''1111111111111111111111111111111111111111'' \<mapsto> one_file_commit,
        ''f572d396fae9206628714fb2ce00f72e94f2258f'' \<mapsto> ''hello\<newline>''],
       head_file := Some ''3333333333333333333333333333333333333333''\<rparr>"

text \<open>
  A store whose only commit has no parent: its \<open>parent\<close> is \<open>null\<close>.
\<close>

definition root_commit_repo :: repo where
  "root_commit_repo =
     dangling_repo\<lparr>objects :=
       [''1111111111111111111111111111111111111111'' \<mapsto>
          JSON_stringify (commit_json ''2024-01-01T00:00:00.000Z'' ''m'' [] JNull)]\<rparr>"

text \<open>
  A parent commit that lists \<open>a.txt\<close> twice, with two different blobs, and its child,
  which lists \<open>a.txt\<close> once.
\<close>

definition twice_repo :: repo where
  "twice_repo =
     dangling_repo\<lparr>objects :=
       [''aaaaaaaaaaaaaaaaaaaaaaaaaaaaaaaaaaaaaaaa'' \<mapsto> ''one'',
        ''bbbbbbbbbbbbbbbbbbbbbbbbbbbbbbbbbbbbbbbb'' \<mapsto> ''two'',
        ''cccccccccccccccccccccccccccccccccccccccc'' \<mapsto> ''three'',
        ''2222222222222222222222222222222222222222'' \<mapsto>
          JSON_stringify (commit_json ''2024-01-01T00:00:00.000Z'' ''c1''
            [(''a.txt'', ''aaaaaaaaaaaaaaaaaaaaaaaaaaaaaaaaaaaaaaaa''),
             (''a.txt'', ''bbbbbbbbbbbbbbbbbbbbbbbbbbbbbbbbbbbbbbbb'')] (JString [])),
        ''3333333333333333333333333333333333333333'' \<mapsto>
          JSON_stringify (commit_json ''2024-01-02T00:00:00.000Z'' ''c2''
            [(''a.txt'', ''cccccccccccccccccccccccccccccccccccccccc'')]
            (JString ''2222222222222222222222222222222222222222''))]\<rparr>"

text \<open>
  A directory with one file, \<open>a.txt\<close>, after \<open>init\<close>.
\<close>

definition a_txt_repo :: repo where
  "a_txt_repo = snd (init (fresh [''a.txt'' \<mapsto> ''one'']))"

text \<open>
  A directory with one file that is not UTF-8, \<open>b.bin\<close> with the bytes \<open>FF FE 41\<close>,
  after \<open>init\<close>.
\<close>

definition binary_repo :: repo where
  "binary_repo = snd (init (fresh [''b.bin'' \<mapsto> [CHR 0xFF, CHR 0xFE, CHR ''A'']]))"

text \<open>
  The same directory after \<open>add a.txt\<close>, with the stand-in digest.
\<close>

definition staged_repo :: repo where
  "staged_repo = snd (add toy_digest ''a.txt'' a_txt_repo)"

subsection \<open>Notions used in the proofs about JSON\<close>

text \<open>
  \<open>plain\<close> values have no number and no repeated key: the values the program writes.
  \<open>fuel\<close> bounds the fuel the reader needs for the text of a value, and \<open>rt\<close> says that
  the reader, given that much, reads the text of a value back.
\<close>

fun plain :: "json \<Rightarrow> bool" where
  "plain JNull = True"
| "plain (JBool b) = True"
| "plain (JNum l) = False"
| "plain (JString s) = True"
| "plain (JArray vs) = list_all plain vs"
| "plain (JObject kvs) = (distinct (map fst kvs) \<and> list_all (\<lambda>kv. plain (snd kv)) kvs)"

fun fuel :: "json \<Rightarrow> nat" where
  "fuel (JArray vs) = Suc (sum_list (map (\<lambda>v. Suc (fuel v)) vs))"
| "fuel (JObject kvs) = Suc (sum_list (map (\<lambda>kv. Suc (fuel (snd kv))) kvs))"
| "fuel v = 1"

definition starts_value :: "string \<Rightarrow> bool" where
  "starts_value s = (case s of [] \<Rightarrow> False | c # cs \<Rightarrow> \<not> is_ws c \<and> c \<noteq> CHR '']'' \<and> c \<noteq> CHR ''}'')"

definition rt :: "json \<Rightarrow> bool" where
  "rt v = (\<forall>n r. fuel v \<le> n \<longrightarrow> parse_value n (JSON_stringify v @ r) = Some (v, r))"

section \<open>Reading back what \<open>JSON.stringify\<close> wrote\<close>

lemma hexval_hexdigit: "k < 16 \<Longrightarrow> hexval (hexdigit k) = Some k"
proof -
  assume "k < 16"
  then have "k = 0 \<or> k = 1 \<or> k = 2 \<or> k = 3 \<or> k = 4 \<or> k = 5 \<or> k = 6 \<or> k = 7 \<or> k = 8
    \<or> k = 9 \<or> k = 10 \<or> k = 11 \<or> k = 12 \<or> k = 13 \<or> k = 14 \<or> k = 15" by arith
  then show ?thesis
    by (elim disjE) (simp_all add: hexval_def hexdigit_def)
qed

lemma hex4_ctl:
  assumes "n < 32"
  shows "hex4 [CHR ''0'', CHR ''0'', hexdigit (n div 16), hexdigit (n mod 16)] = Some n"
proof -
  have a: "hexval (hexdigit (n div 16)) = Some (n div 16)"
    using assms by (intro hexval_hexdigit) arith
  have b: "hexval (hexdigit (n mod 16)) = Some (n mod 16)"
    by (intro hexval_hexdigit) simp
  have z: "hexval CHR ''0'' = Some 0" by (simp add: hexval_def)
  show ?thesis by (simp add: hex4_def a b z)
qed

lemma psb_escape:
  "parse_string_body (escape_char c @ t) = map_option (\<lambda>(x, r). (c # x, r)) (parse_string_body t)"
proof (cases "(of_char c :: nat) < 32")
  case True
  have u: "utf8 (of_char c) = [c]" using True by (simp add: utf8_def)
  show ?thesis
    using True hex4_ctl [OF True] u
    by (simp add: escape_char_def unescape_def)
next
  case False
  then show ?thesis
    by (auto simp add: escape_char_def unescape_def)
qed

lemma psb_quote:
  "parse_string_body (concat (map escape_char s) @ CHR 0x22 # r) = Some (s, r)"
  by (induction s) (simp_all add: psb_escape)


lemma starts_value_stringify: "plain v \<Longrightarrow> starts_value (JSON_stringify v @ r)"
  by (cases v) (simp_all add: starts_value_def is_ws_def quote_def)

lemma skip_ws_starts: "starts_value s \<Longrightarrow> \<exists>c cs. skip_ws s = c # cs \<and> s = c # cs \<and> c \<noteq> CHR '']'' \<and> c \<noteq> CHR ''}''"
  by (cases s) (simp_all add: starts_value_def)

lemma rt_elements:
  assumes "\<And>x. x \<in> set vs \<Longrightarrow> rt x" and "vs \<noteq> []"
    and "sum_list (map (\<lambda>v. Suc (fuel v)) vs) \<le> n"
  shows "parse_elements n (join_commas (map JSON_stringify vs) @ CHR '']'' # r) = Some (vs, r)"
  using assms
proof (induction vs arbitrary: n)
  case Nil
  then show ?case by simp
next
  case (Cons x xs)
  from Cons.prems(3) obtain m where n: "n = Suc m" and m: "fuel x \<le> m"
    and ms: "sum_list (map (\<lambda>v. Suc (fuel v)) xs) \<le> m"
    by (cases n) auto
  have x: "\<And>r. parse_value m (JSON_stringify x @ r) = Some (x, r)"
    using Cons.prems(1) [of x] m by (simp add: rt_def)
  show ?case
  proof (cases xs)
    case Nil
    then show ?thesis using x by (simp add: n is_ws_def)
  next
    case (Cons y ys)
    have "parse_elements m (join_commas (map JSON_stringify xs) @ CHR '']'' # r) = Some (xs, r)"
      using Cons.IH [of m] Cons.prems(1) ms Cons by simp
    then show ?thesis using x Cons by (simp add: n is_ws_def)
  qed
qed


lemma rt_members:
  assumes "\<And>k x. (k, x) \<in> set kvs \<Longrightarrow> rt x" and "kvs \<noteq> []"
    and "sum_list (map (\<lambda>kv. Suc (fuel (snd kv))) kvs) \<le> n"
  shows "parse_members n (join_commas (map (\<lambda>(k, v). quote k @ CHR '':'' # JSON_stringify v) kvs) @ CHR ''}'' # r)
         = Some (kvs, r)"
  using assms
proof (induction kvs arbitrary: n)
  case Nil
  then show ?case by simp
next
  case (Cons kv rest)
  obtain k x where kv: "kv = (k, x)" by (cases kv)
  from Cons.prems(3) obtain m where n: "n = Suc m" and m: "fuel x \<le> m"
    and ms: "sum_list (map (\<lambda>kv. Suc (fuel (snd kv))) rest) \<le> m"
    by (cases n) (auto simp: kv)
  have x: "\<And>r. parse_value m (JSON_stringify x @ r) = Some (x, r)"
    using Cons.prems(1) [of k x] m by (simp add: rt_def kv)
  have rest: "\<And>k x. (k, x) \<in> set rest \<Longrightarrow> rt x"
    using Cons.prems(1) by auto
  note IH = Cons.IH [OF rest _ ms]
  show ?case
  proof (cases rest)
    case Nil
    then show ?thesis using x by (simp add: n kv is_ws_def quote_def psb_quote)
  next
    case (Cons kv' rest')
    then have "parse_members m (join_commas (map (\<lambda>(k, v). quote k @ CHR '':'' # JSON_stringify v) rest) @ CHR ''}'' # r)
          = Some (rest, r)"
      by (intro IH) simp_all
    then show ?thesis using x Cons by (simp add: n kv is_ws_def quote_def psb_quote)
  qed
qed

lemma obj_put_fresh: "k \<notin> fst ` set ps \<Longrightarrow> obj_put ps (k, v) = ps @ [(k, v)]"
  by (induction ps) auto

lemma foldl_obj_put: "distinct (map fst (ps @ kvs)) \<Longrightarrow> foldl obj_put ps kvs = ps @ kvs"
proof (induction kvs arbitrary: ps)
  case Nil
  then show ?case by simp
next
  case (Cons kv kvs)
  obtain k v where kv: "kv = (k, v)" by (cases kv)
  have "obj_put ps kv = ps @ [kv]"
    using Cons.prems unfolding kv by (intro obj_put_fresh) auto
  then show ?case using Cons.IH [of "ps @ [kv]"] Cons.prems by simp
qed

lemma rt_plain: "plain v \<Longrightarrow> rt v"
proof (induction v)
  case JNull
  show ?case unfolding rt_def
  proof (intro allI impI)
    fix n r assume "fuel JNull \<le> n"
    then obtain m where "n = Suc m" by (cases n) auto
    then show "parse_value n (JSON_stringify JNull @ r) = Some (JNull, r)" by (simp add: is_ws_def)
  qed
next
  case (JBool b)
  show ?case unfolding rt_def
  proof (intro allI impI)
    fix n r assume "fuel (JBool b) \<le> n"
    then obtain m where "n = Suc m" by (cases n) auto
    then show "parse_value n (JSON_stringify (JBool b) @ r) = Some (JBool b, r)" by (simp add: is_ws_def)
  qed
next
  case (JNum l)
  then show ?case by simp
next
  case (JString s)
  show ?case unfolding rt_def
  proof (intro allI impI)
    fix n r assume "fuel (JString s) \<le> n"
    then obtain m where "n = Suc m" by (cases n) auto
    then show "parse_value n (JSON_stringify (JString s) @ r) = Some (JString s, r)"
      by (simp add: is_ws_def quote_def psb_quote)
  qed
next
  case (JArray vs)
  have el: "\<And>x. x \<in> set vs \<Longrightarrow> rt x"
    using JArray by (simp add: list_all_iff)
  show ?case unfolding rt_def
  proof (intro allI impI)
    fix n r assume f: "fuel (JArray vs) \<le> n"
    then obtain m where n: "n = Suc m" and m: "sum_list (map (\<lambda>v. Suc (fuel v)) vs) \<le> m"
      by (cases n) auto
    show "parse_value n (JSON_stringify (JArray vs) @ r) = Some (JArray vs, r)"
    proof (cases vs)
      case Nil
      then show ?thesis by (simp add: n is_ws_def)
    next
      case (Cons x xs)
      have "plain x" using JArray.prems Cons by simp
      then have "starts_value (join_commas (map JSON_stringify vs) @ CHR '']'' # r)"
        using starts_value_stringify [of x] Cons by (cases xs) simp_all
      then obtain c cs where c: "skip_ws (join_commas (map JSON_stringify vs) @ CHR '']'' # r) = c # cs"
        "c \<noteq> CHR '']''"
        using skip_ws_starts by blast
      have "parse_elements m (join_commas (map JSON_stringify vs) @ CHR '']'' # r) = Some (vs, r)"
        using rt_elements [OF el _ m] Cons by simp
      then show ?thesis using c by (simp add: n is_ws_def)
    qed
  qed
next
  case (JObject kvs)
  have el: "\<And>k x. (k, x) \<in> set kvs \<Longrightarrow> rt x"
    using JObject by (fastforce simp: list_all_iff)
  have d: "distinct (map fst kvs)" using JObject.prems by simp
  show ?case unfolding rt_def
  proof (intro allI impI)
    fix n r assume f: "fuel (JObject kvs) \<le> n"
    then obtain m where n: "n = Suc m" and m: "sum_list (map (\<lambda>kv. Suc (fuel (snd kv))) kvs) \<le> m"
      by (cases n) auto
    let ?body = "join_commas (map (\<lambda>(k, v). quote k @ CHR '':'' # JSON_stringify v) kvs) @ CHR ''}'' # r"
    show "parse_value n (JSON_stringify (JObject kvs) @ r) = Some (JObject kvs, r)"
    proof (cases kvs)
      case Nil
      then show ?thesis by (simp add: n is_ws_def)
    next
      case (Cons kv rest)
      have "starts_value ?body"
        using Cons by (cases rest; cases kv) (simp_all add: starts_value_def quote_def is_ws_def)
      then obtain c cs where c: "skip_ws ?body = c # cs" "c \<noteq> CHR ''}''"
        using skip_ws_starts by blast
      have "parse_members m ?body = Some (kvs, r)"
        using rt_members [OF el _ m] Cons by simp
      then show ?thesis using c foldl_obj_put [of "[]" kvs] d by (simp add: n is_ws_def)
    qed
  qed
qed

lemma length_join_commas:
  "xs \<noteq> [] \<Longrightarrow> Suc (length (join_commas xs)) = sum_list (map (\<lambda>x. Suc (length x)) xs)"
  by (induction xs rule: join_commas.induct) simp_all

lemma fuel_le_length: "plain v \<Longrightarrow> fuel v \<le> length (JSON_stringify v)"
proof (induction v)
  case (JArray vs)
  have el: "\<And>x. x \<in> set vs \<Longrightarrow> fuel x \<le> length (JSON_stringify x)"
    using JArray by (simp add: list_all_iff)
  show ?case
  proof (cases vs)
    case Nil
    then show ?thesis by simp
  next
    case (Cons x xs)
    have "sum_list (map (\<lambda>v. Suc (fuel v)) vs) \<le> sum_list (map (\<lambda>x. Suc (length x)) (map JSON_stringify vs))"
      unfolding map_map comp_def by (intro sum_list_mono) (simp add: el)
    also have "\<dots> = Suc (length (join_commas (map JSON_stringify vs)))"
      using length_join_commas [of "map JSON_stringify vs"] Cons by simp
    finally show ?thesis by simp
  qed
next
  case (JObject kvs)
  have el: "\<And>kv. kv \<in> set kvs \<Longrightarrow> fuel (snd kv) \<le> length (JSON_stringify (snd kv))"
    using JObject by (fastforce simp: list_all_iff)
  show ?case
  proof (cases kvs)
    case Nil
    then show ?thesis by simp
  next
    case (Cons x xs)
    let ?f = "\<lambda>(k, v). quote k @ CHR '':'' # JSON_stringify v"
    have "sum_list (map (\<lambda>kv. Suc (fuel (snd kv))) kvs) \<le> sum_list (map (\<lambda>x. Suc (length x)) (map ?f kvs))"
      unfolding map_map comp_def
    proof (intro sum_list_mono)
      fix kv assume "kv \<in> set kvs"
      then have "fuel (snd kv) \<le> length (JSON_stringify (snd kv))" by (rule el)
      then show "Suc (fuel (snd kv)) \<le> Suc (length (?f kv))"
        by (auto split: prod.splits)
    qed
    also have "\<dots> = Suc (length (join_commas (map ?f kvs)))"
      using length_join_commas [of "map ?f kvs"] Cons by simp
    finally show ?thesis by simp
  qed
qed (simp_all add: quote_def)

lemma JSON_roundtrip: "plain v \<Longrightarrow> JSON_parse (JSON_stringify v) = Some v"
proof -
  assume p: "plain v"
  have "fuel v \<le> Suc (length (JSON_stringify v))" using fuel_le_length [OF p] by simp
  then have "parse_value (Suc (length (JSON_stringify v))) (JSON_stringify v @ []) = Some (v, [])"
    using rt_plain [OF p] unfolding rt_def by blast
  then show ?thesis by (simp add: JSON_parse_def)
qed

section \<open>What the methods do to an initialised repository\<close>

subsection \<open>The records of the program as JSON texts\<close>

text \<open>
  The entries, the index and the commit records have no number and no repeated key, so
  \<open>JSON.parse\<close> reads them back as they were written.
\<close>

lemma utf8_step_well_formed:
  "well_formed_at b bs = Some n \<Longrightarrow> utf8_step b bs = (b # take n bs, n)"
  unfolding well_formed_at_def utf8_step_def
  by (auto split: if_splits list.splits)

lemma utf8_decode_valid: "valid_utf8 c \<Longrightarrow> utf8_decode c = c"
proof (induction c rule: valid_utf8.induct)
  case 1
  then show ?case by simp
next
  case (2 b bs)
  then obtain n where n: "well_formed_at b bs = Some n" and v: "valid_utf8 (drop n bs)"
    by (auto split: option.splits)
  have "utf8_decode (drop n bs) = drop n bs" using "2.IH" [OF n v] .
  then show ?case by (simp add: utf8_step_well_formed [OF n])
qed

lemma valid_utf8_step:
  "valid_utf8 ys \<Longrightarrow> valid_utf8 (fst (utf8_step b bs) @ ys)"
  unfolding utf8_step_def
  by (auto simp add: well_formed_at_def replacement_def in_range_def second_lo_def second_hi_def
      split: list.splits)

lemma valid_utf8_decode: "valid_utf8 (utf8_decode c)"
  by (induction c rule: utf8_decode.induct)
    (simp_all add: valid_utf8_step del: valid_utf8.simps(2))

lemma utf8_decode_idem: "utf8_decode (utf8_decode c) = utf8_decode c"
  using valid_utf8_decode by (rule utf8_decode_valid)

lemma plain_name_nonempty: "plain_name h \<Longrightarrow> h \<noteq> []"
  by (simp add: plain_name_def)

lemma plain_index: "plain (index_json es)"
  by (induction es) (simp_all add: index_json_def entry_json_def)

lemma plain_commit: "plain p \<Longrightarrow> plain (commit_json t m es p)"
  using plain_index [of es] by (simp add: commit_json_def)

lemma entry_fold [simp]:
  "JObject [(''path'', JString p), (''hash'', JString h)] = entry_json (p, h)"
  by (simp add: entry_json_def)

lemma commit_fold [simp]:
  "JObject [(''timeStamp'', JString t), (''message'', JString m),
            (''files'', index_json es), (''parent'', p)] = commit_json t m es p"
  by (simp add: commit_json_def)

lemma parse_index [simp]: "JSON_parse (JSON_stringify (index_json es)) = Some (index_json es)"
  by (simp add: JSON_roundtrip plain_index)

lemma parse_commit [simp]:
  "plain p \<Longrightarrow> JSON_parse (JSON_stringify (commit_json t m es p)) = Some (commit_json t m es p)"
  by (simp add: JSON_roundtrip plain_commit)

lemma parse_null [simp]: "JSON_parse ''null'' = Some JNull"
  by (simp add: JSON_parse_def is_ws_def)

lemma parse_empty_array: "JSON_parse (JSON_stringify (JArray [])) = Some (JArray [])"
  by (simp add: JSON_parse_def is_ws_def)

lemma parse_hello: "JSON_parse ''hello\<newline>'' = None"
  by (simp add: JSON_parse_def is_ws_def parse_number_def parse_int_def digits1_def is_digit_def)

lemma index_json_Nil: "index_json [] = JArray []"
  by (simp add: index_json_def)

lemma push_index [simp]:
  "array_push (index_json es) (entry_json e) = Inr (index_json (es @ [e]))"
  by (simp add: array_push_def index_json_def)

lemma get_prop_commit [simp]:
  "get_prop (commit_json t m es p) ''timeStamp'' = Inr (Some (JString t))"
  "get_prop (commit_json t m es p) ''message'' = Inr (Some (JString m))"
  "get_prop (commit_json t m es p) ''files'' = Inr (Some (index_json es))"
  "get_prop (commit_json t m es p) ''parent'' = Inr (Some p)"
  by (simp_all add: commit_json_def del: commit_fold)

lemma get_prop_entry [simp]:
  "get_prop (entry_json e) ''path'' = Inr (Some (JString (fst e)))"
  "get_prop (entry_json e) ''hash'' = Inr (Some (JString (snd e)))"
  by (simp_all add: entry_json_def del: entry_fold)

lemma truthy_commit [simp]: "truthy (Some (commit_json t m es p))"
  by (simp add: commit_json_def del: commit_fold)

lemma truthy_entry [simp]: "truthy (Some (entry_json e))"
  by (simp add: entry_json_def del: entry_fold)

lemma iterate_index [simp]: "iterate (Some (index_json es)) = Inr (map entry_json es)"
  by (simp add: iterate_def index_json_def)

subsection \<open>The digest\<close>

lemma hex_digest_nonempty: "hex_digest sha1 \<Longrightarrow> sha1 x \<noteq> []"
proof
  assume "hex_digest sha1" and "sha1 x = []"
  then have "length ([]::string) = 40" unfolding hex_digest_def by metis
  then show False by simp
qed

lemma hexdigit_hex: "k < 16 \<Longrightarrow> hexdigit k \<in> set ''0123456789abcdef''"
  unfolding hexdigit_def by (rule nth_mem) simp

lemma hex2_hex: "set (hex2 c) \<subseteq> set ''0123456789abcdef''"
proof -
  have "(of_char c :: nat) < 256" by simp
  then have a: "(of_char c :: nat) div 16 < 16" by arith
  have b: "(of_char c :: nat) mod 16 < 16" by simp
  show ?thesis
    using hexdigit_hex [OF a] hexdigit_hex [OF b] by (simp add: hex2_def)
qed

lemma hex_digest_toy: "hex_digest toy_digest"
proof -
  have len: "length (toy_digest x) = 40" for x
    by (auto simp add: toy_digest_def)
  have "set (concat (map hex2 (rev x))) \<subseteq> set ''0123456789abcdef''" for x
    using hex2_hex by fastforce
  then have "set (concat (map hex2 (rev x)) @ replicate 40 CHR ''0'') \<subseteq> set ''0123456789abcdef''" for x
    by auto
  then have "set (toy_digest x) \<subseteq> set ''0123456789abcdef''" for x
    unfolding toy_digest_def using set_take_subset by fast
  then show ?thesis using len by (simp add: hex_digest_def)
qed

subsection \<open>\<open>init\<close>, \<open>add\<close> and \<open>commit\<close>\<close>

text \<open>
  On an initialised repository \<open>add\<close> and \<open>commit\<close> succeed, and the repository they
  leave is the old one with three or four files rewritten.
\<close>

lemmas io_defs = io_bind_def io_return_def io_catch_def lift_def console_log_def parse_text_def
  read_work_def read_object_def write_object_def read_head_def write_head_def write_head_wx_def
  read_index_def write_index_def write_index_wx_def mkdir_objects_def

lemma init_fresh:
  "init (fresh w) =
     (Inr (), \<lparr>work = w, duck_dir = True, objects_dir = True, objects = Map.empty,
               head_file = Some [], index_file = Some (JSON_stringify (index_json [])),
               console = []\<rparr>)"
  by (simp add: init_def fresh_def io_defs index_json_Nil del: JSON_stringify.simps)

lemma initialised_init_fresh: "initialised (snd (init (fresh w))) []"
  by (simp add: init_fresh initialised_def del: JSON_stringify.simps)

lemma head_init_fresh: "head_file (snd (init (fresh w))) = Some []"
  by (simp add: init_fresh)

lemma init_head_exists: "head_file (snd (init s)) \<noteq> None"
  by (auto simp add: init_def io_defs)

lemma add_initialised:
  assumes "initialised s es" and "work s f = Some bytes" and "sha1 (utf8_decode bytes) \<noteq> []"
  shows "add sha1 f s =
    (Inr (), s\<lparr>objects := (objects s)(sha1 (utf8_decode bytes) \<mapsto> utf8_decode bytes),
               index_file := Some (JSON_stringify
                 (index_json (es @ [(f, sha1 (utf8_decode bytes))]))),
               console := console s @ [Printed (sha1 (utf8_decode bytes)), Added f]\<rparr>)"
  using assms
  by (simp add: add_def updateStagingArea_def hashObject_def initialised_def io_defs Let_def
      del: JSON_stringify.simps utf8_decode.simps)

lemma initialised_after_add:
  "initialised s es \<Longrightarrow>
   initialised (s\<lparr>objects := ob, index_file := Some (JSON_stringify (index_json es')),
                  console := co\<rparr>) es'"
  by (simp add: initialised_def del: JSON_stringify.simps)

lemma commit_initialised:
  assumes "initialised s es" and "head_file s = Some h0"
    and "sha1 (JSON_stringify (commit_json now m es (JString h0))) \<noteq> []"
  shows "commit sha1 now m s =
    (Inr (), s\<lparr>objects := (objects s)
                 (sha1 (JSON_stringify (commit_json now m es (JString h0))) \<mapsto>
                  JSON_stringify (commit_json now m es (JString h0))),
               head_file := Some (sha1 (JSON_stringify (commit_json now m es (JString h0)))),
               index_file := Some (JSON_stringify (index_json [])),
               console := console s @
                 [CommitCreated (sha1 (JSON_stringify (commit_json now m es (JString h0))))]\<rparr>)"
  using assms
  by (simp add: commit_def getCurrentHead_def hashObject_def initialised_def io_defs Let_def
        index_json_Nil
      del: JSON_stringify.simps)

lemma utf8_decode_one: "utf8_decode ''one'' = ''one''"
  by (simp add: utf8_step_def)

lemma staged_repo_eq:
  "staged_repo = a_txt_repo\<lparr>objects := (objects a_txt_repo)(toy_digest ''one'' \<mapsto> ''one''),
       index_file := Some (JSON_stringify (index_json ([] @ [(''a.txt'', toy_digest ''one'')]))),
       console := console a_txt_repo @ [Printed (toy_digest ''one''), Added ''a.txt'']\<rparr>"
proof -
  have i: "initialised a_txt_repo []"
    unfolding a_txt_repo_def by (rule initialised_init_fresh)
  have w: "work a_txt_repo ''a.txt'' = Some ''one''"
    by (simp add: a_txt_repo_def init_fresh)
  have n: "toy_digest (utf8_decode ''one'') \<noteq> []"
    using hex_digest_toy by (rule hex_digest_nonempty)
  have "add toy_digest ''a.txt'' a_txt_repo =
    (Inr (), a_txt_repo\<lparr>objects := (objects a_txt_repo)
         (toy_digest (utf8_decode ''one'') \<mapsto> utf8_decode ''one''),
       index_file := Some (JSON_stringify
         (index_json ([] @ [(''a.txt'', toy_digest (utf8_decode ''one''))]))),
       console := console a_txt_repo @
         [Printed (toy_digest (utf8_decode ''one'')), Added ''a.txt'']\<rparr>)"
    using i w n by (rule add_initialised)
  then show ?thesis unfolding staged_repo_def utf8_decode_one by simp
qed

subsection \<open>\<open>log\<close>\<close>

text \<open>
  One round of the loop on a stored commit record, and on a name without an object.
\<close>

lemma log_step_commit:
  assumes "objects s h = Some (JSON_stringify (commit_json t m es p))" and "h \<noteq> []" and "plain p"
  shows "log_step (Some (JString h)) s =
    (Inr (Some p), s\<lparr>console := console s @
       [Separator, LogCommit h (Some (JString t)) (Some (JString m))]\<rparr>)"
  using assms
  by (simp add: log_step_def as_path_def io_defs del: JSON_stringify.simps)

lemma log_step_missing:
  assumes "objects s p = None" and "p \<noteq> []"
  shows "log_step (Some (JString p)) s = (Inl ENOENT, s)"
  using assms
  by (simp add: log_step_def as_path_def io_defs)

lemma log_loop_stop: "\<not> truthy p \<Longrightarrow> log_loop p s = Some (Inr (), s)"
  by (subst log_loop.simps) simp

lemma log_loop_commit:
  assumes "objects s h = Some (JSON_stringify (commit_json t m es p))" and "h \<noteq> []" and "plain p"
  shows "log_loop (Some (JString h)) s =
    log_loop (Some p) (s\<lparr>console := console s @
       [Separator, LogCommit h (Some (JString t)) (Some (JString m))]\<rparr>)"
  by (subst log_loop.simps) (simp add: log_step_commit [OF assms] assms(2))

lemma log_loop_missing:
  assumes "objects s p = None" and "p \<noteq> []"
  shows "log_loop (Some (JString p)) s = Some (Inl ENOENT, s)"
  by (subst log_loop.simps) (simp add: log_step_missing [OF assms] assms(2))

lemma log_at_head:
  "head_file s = Some h \<Longrightarrow> log s = log_loop (Some (JString h)) s"
  by (simp add: log_def getCurrentHead_def io_defs)

subsection \<open>\<open>showCommitDiff\<close>\<close>

text \<open>
  The loop over the files of a stored commit record, one file at a time.
\<close>

lemma getCommitData_missing:
  "objects s h = None \<Longrightarrow>
   getCommitData (Some (JString h)) s =
     (Inr None, s\<lparr>console := console s @
        [FailedToRead (if h = [] \<and> objects_dir s then EISDIR else ENOENT)]\<rparr>)"
  by (simp add: getCommitData_def as_path_def io_defs)

lemma getCommitData_present:
  "objects s h = Some t \<Longrightarrow> h \<noteq> [] \<Longrightarrow> getCommitData (Some (JString h)) s = (Inr (Some t), s)"
  by (simp add: getCommitData_def as_path_def io_defs)

lemma show_commit_unfold:
  assumes "objects s h = Some (JSON_stringify (commit_json t m es par))" and "h \<noteq> []"
    and "plain par"
  shows "showCommitDiff h s =
    show_files (commit_json t m es par) (map entry_json es)
      (s\<lparr>console := console s @ [ChangesHeader]\<rparr>)"
  using assms
  by (simp add: showCommitDiff_def getCommitData_present parse_nullable_def io_bind_def
        lift_def parse_text_def console_log_def del: JSON_stringify.simps)

lemma show_file_missing_blob:
  assumes "objects s b = None" and "b \<noteq> []"
  shows "show_file cd (entry_json (f, b)) s =
    (Inl ENOENT, s\<lparr>console := console s @ [FileHeader (Some (JString f))]\<rparr>)"
  using assms
  by (simp add: show_file_def getFileContent_def as_path_def io_defs)

lemma show_file_missing_parent:
  assumes "objects s b = Some c" and "b \<noteq> []"
    and "get_prop cd ''parent'' = Inr (Some (JString p))" and "p \<noteq> []" and "objects s p = None"
  shows "show_file cd (entry_json (f, b)) s =
    (Inl TypeError, s\<lparr>console := console s @
       [FileHeader (Some (JString f)), Content c, FailedToRead ENOENT]\<rparr>)"
  using assms
  by (simp add: show_file_def getFileContent_def getCommitData_def getParentFileContent_def
        parse_nullable_def as_path_def io_defs)

lemma show_file_first_commit:
  assumes "objects s b = Some c" and "b \<noteq> []"
    and "get_prop cd ''parent'' = Inr par" and "\<not> truthy par"
  shows "show_file cd (entry_json (f, b)) s =
    (Inr (), s\<lparr>console := console s @
       [FileHeader (Some (JString f)), Content c, FirstCommit]\<rparr>)"
  using assms
  by (simp add: show_file_def getFileContent_def as_path_def io_defs)

lemma show_file_store:
  "objects (snd (show_file cd file s)) = objects s"
  by (auto simp add: show_file_def getFileContent_def getCommitData_def getParentFileContent_def
        parse_nullable_def as_path_def prop_of_def io_defs
      split: sum.splits option.splits json.splits prod.splits if_splits)

lemma show_file_blob_fails:
  assumes "objects s b = None"
  shows "\<exists>e. fst (show_file cd (entry_json (f, b)) s) = Inl e"
  using assms
  by (simp add: show_file_def getFileContent_def as_path_def io_defs)

lemma show_files_blob_fails:
  assumes "(f, b) \<in> set es" and "objects s b = None"
  shows "\<exists>e. fst (show_files cd (map entry_json es) s) = Inl e"
  using assms
proof (induction es arbitrary: s)
  case Nil
  then show ?case by simp
next
  case (Cons x xs)
  obtain r s' where r: "show_file cd (entry_json x) s = (r, s')" by (cases "show_file cd (entry_json x) s")
  show ?case
  proof (cases r)
    case (Inl e)
    then show ?thesis using r by (simp add: io_bind_def)
  next
    case (Inr u)
    have "x \<noteq> (f, b)"
      using show_file_blob_fails [OF Cons.prems(2), of cd f] r Inr by auto
    then have mem: "(f, b) \<in> set xs" using Cons.prems(1) by simp
    have "objects s' = objects s" using show_file_store [of cd "entry_json x" s] r by simp
    then have "\<exists>e. fst (show_files cd (map entry_json xs) s') = Inl e"
      using Cons.IH [OF mem] Cons.prems(2) by simp
    then show ?thesis using r Inr by (simp add: io_bind_def)
  qed
qed

lemma find_file_first:
  "p \<notin> set (map fst es1) \<Longrightarrow>
   find_file (map entry_json (es1 @ (p, b1) # es2)) (Some (JString p))
     = Inr (Some (entry_json (p, b1)))"
  by (induction es1) auto

lemma getParentFileContent_first:
  assumes "p \<notin> set (map fst es1)" and "b1 \<noteq> []" and "objects s b1 = Some c"
  shows "getParentFileContent (commit_json t m (es1 @ (p, b1) # es2) par) (Some (JString p)) s
    = (Inr (Some c), s)"
  using assms find_file_first [OF assms(1), of b1 es2]
  by (simp add: getParentFileContent_def getFileContent_def prop_of_def as_path_def io_defs
        index_json_def)

lemma show_files_first_commit:
  assumes "\<forall>e \<in> set es. snd e \<noteq> [] \<and> objects s (snd e) \<noteq> None"
    and "get_prop cd ''parent'' = Inr par" and "\<not> truthy par"
  shows "show_files cd (map entry_json es) s =
     (Inr (), s\<lparr>console := console s @ first_commit_lines s es\<rparr>)"
  using assms(1)
proof (induction es arbitrary: s)
  case Nil
  then show ?case by (simp add: io_return_def first_commit_lines_def)
next
  case (Cons x xs)
  obtain f b where x: "x = (f, b)" by (cases x)
  obtain c where c: "objects s b = Some c" and b: "b \<noteq> []" using Cons.prems x by auto
  let ?s = "s\<lparr>console := console s @ [FileHeader (Some (JString f)), Content c, FirstCommit]\<rparr>"
  have 1: "show_file cd (entry_json x) s = (Inr (), ?s)"
    unfolding x by (rule show_file_first_commit [OF c b assms(2,3)])
  have 2: "show_files cd (map entry_json xs) ?s =
     (Inr (), ?s\<lparr>console := console ?s @ first_commit_lines ?s xs\<rparr>)"
    using Cons.prems by (intro Cons.IH) simp
  have 3: "first_commit_lines ?s xs = first_commit_lines s xs"
    by (simp add: first_commit_lines_def)
  show ?case
    by (simp add: io_bind_def 1 2 3) (simp add: first_commit_lines_def x c)
qed

lemma show_file_diff:
  assumes "objects s b = Some c'" and "b \<noteq> []"
    and "get_prop cd ''parent'' = Inr (Some (JString ph))" and "ph \<noteq> []"
    and "objects s ph = Some (JSON_stringify (commit_json t m (es1 @ (p, b1) # es2) par))"
    and "plain par"
    and "p \<notin> set (map fst es1)" and "b1 \<noteq> []" and "objects s b1 = Some c"
  shows "show_file cd (entry_json (p, b)) s =
    (Inr (), s\<lparr>console := console s @
       [FileHeader (Some (JString p)), Content c', DiffHeader, DiffLines c c', NewLine]\<rparr>)"
proof -
  let ?s = "s\<lparr>console := console s @ [FileHeader (Some (JString p)), Content c']\<rparr>"
  have g: "getParentFileContent (commit_json t m (es1 @ (p, b1) # es2) par) (Some (JString p)) ?s
    = (Inr (Some c), ?s)"
    using assms(7-9) by (intro getParentFileContent_first) simp_all
  show ?thesis
    using assms(1-6) g
    by (simp add: show_file_def getFileContent_def getCommitData_def parse_nullable_def
          as_path_def io_defs del: JSON_stringify.simps)
qed

lemma first_commit_lines_count:
  "\<forall>e \<in> set es. objects s (snd e) \<noteq> None \<Longrightarrow>
   length (filter (\<lambda>ev. ev = FirstCommit) (first_commit_lines s es)) = length es"
  by (induction es) (auto simp add: first_commit_lines_def)

subsection \<open>A run of commits and the walk back\<close>

text \<open>
  A run of commits with distinct hashes leaves every record in the store, linked to the
  one before; \<open>log\<close> walks the records from the newest to the oldest.
\<close>

lemma linked_snoc: "linked rs h1 \<Longrightarrow> linked (rs @ [(h1, t, m, h0)]) h0"
  by (induction rs h1 rule: linked.induct) auto

lemma top_snoc:
  "(case rs @ [(h1, t, m, h0)] of [] \<Rightarrow> h0 | r # _ \<Rightarrow> fst r) = (case rs of [] \<Rightarrow> h1 | r # _ \<Rightarrow> fst r)"
  by (cases rs) simp_all

lemma commits_chain:
  assumes "hex_digest sha1"
  shows "initialised s0 [] \<Longrightarrow> head_file s0 = Some h0 \<Longrightarrow>
     distinct (map fst (chain sha1 h0 cs)) \<Longrightarrow>
     initialised (commits sha1 cs s0) [] \<and>
     head_file (commits sha1 cs s0) = Some (case chain sha1 h0 cs of [] \<Rightarrow> h0 | r # _ \<Rightarrow> fst r) \<and>
     (\<forall>k. k \<notin> set (map fst (chain sha1 h0 cs)) \<longrightarrow> objects (commits sha1 cs s0) k = objects s0 k) \<and>
     stored (commits sha1 cs s0) (chain sha1 h0 cs) \<and>
     linked (chain sha1 h0 cs) h0 \<and>
     length (chain sha1 h0 cs) = length cs"
proof (induction cs arbitrary: s0 h0)
  case Nil
  then show ?case by (simp add: stored_def)
next
  case (Cons c cs)
  let ?rt = "JSON_stringify (commit_json (fst c) (snd c) [] (JString h0))"
  let ?h = "sha1 ?rt"
  let ?s1 = "s0\<lparr>objects := (objects s0)(?h \<mapsto> ?rt), head_file := Some ?h,
               index_file := Some (JSON_stringify (index_json [])),
               console := console s0 @ [CommitCreated ?h]\<rparr>"
  have H: "?h \<noteq> []" using assms by (rule hex_digest_nonempty)
  have c: "commit sha1 (fst c) (snd c) s0 = (Inr (), ?s1)"
    using Cons.prems(1,2) H by (rule commit_initialised)
  have i1: "initialised ?s1 []"
    using Cons.prems(1) by (simp add: initialised_def del: JSON_stringify.simps)
  have h1: "head_file ?s1 = Some ?h" by simp
  have d: "distinct (map fst (chain sha1 ?h cs))" and nh: "?h \<notin> set (map fst (chain sha1 ?h cs))"
    using Cons.prems(3) by (simp_all add: hashObject_def del: JSON_stringify.simps)
  note IH = Cons.IH [OF i1 h1 d]
  have IH1: "initialised (commits sha1 cs ?s1) []"
    and IH2: "head_file (commits sha1 cs ?s1)
        = Some (case chain sha1 ?h cs of [] \<Rightarrow> ?h | r # _ \<Rightarrow> fst r)"
    and IH3: "\<And>k. k \<notin> set (map fst (chain sha1 ?h cs)) \<Longrightarrow>
        objects (commits sha1 cs ?s1) k = objects ?s1 k"
    and IH4: "stored (commits sha1 cs ?s1) (chain sha1 ?h cs)"
    and IH5: "linked (chain sha1 ?h cs) ?h"
    and IH6: "length (chain sha1 ?h cs) = length cs"
    using IH by blast+
  have o: "objects (commits sha1 cs ?s1) ?h = Some ?rt"
    using IH3 [OF nh] by simp
  have st: "stored (commits sha1 (c # cs) s0) (chain sha1 h0 (c # cs))"
    using IH4 o by (simp add: c stored_def hashObject_def del: JSON_stringify.simps)
  have li: "linked (chain sha1 h0 (c # cs)) h0"
    using IH5 by (simp add: hashObject_def linked_snoc del: JSON_stringify.simps)
  have hd: "head_file (commits sha1 (c # cs) s0)
      = Some (case chain sha1 h0 (c # cs) of [] \<Rightarrow> h0 | r # _ \<Rightarrow> fst r)"
    using IH2 by (simp add: c hashObject_def top_snoc del: JSON_stringify.simps)
  have ob: "\<forall>k. k \<notin> set (map fst (chain sha1 h0 (c # cs))) \<longrightarrow>
      objects (commits sha1 (c # cs) s0) k = objects s0 k"
  proof (intro allI impI)
    fix k assume "k \<notin> set (map fst (chain sha1 h0 (c # cs)))"
    then have k: "k \<notin> set (map fst (chain sha1 ?h cs))" and kh: "k \<noteq> ?h"
      by (simp_all add: hashObject_def del: JSON_stringify.simps)
    show "objects (commits sha1 (c # cs) s0) k = objects s0 k"
      using IH3 [OF k] kh by (simp add: c)
  qed
  have ini: "initialised (commits sha1 (c # cs) s0) []" using IH1 by (simp add: c)
  have len: "length (chain sha1 h0 (c # cs)) = length (c # cs)"
    using IH6 by (simp add: hashObject_def del: JSON_stringify.simps)
  show ?case using ini hd ob st li len by blast
qed

lemma log_loop_chain:
  "stored s rs \<Longrightarrow> linked rs h0 \<Longrightarrow> \<forall>r \<in> set rs. fst r \<noteq> [] \<Longrightarrow>
   log_loop (Some (JString (case rs of [] \<Rightarrow> h0 | r # _ \<Rightarrow> fst r))) s =
   log_loop (Some (JString h0)) (s\<lparr>console := console s @ log_lines rs\<rparr>)"
proof (induction rs h0 arbitrary: s rule: linked.induct)
  case (1 h0)
  then show ?case by (simp add: log_lines_def)
next
  case (2 h t m p h0)
  then have o: "objects s h = Some (JSON_stringify (commit_json t m [] (JString p)))"
    and h: "h \<noteq> []" and p: "p = h0"
    by (simp_all add: stored_def del: JSON_stringify.simps)
  show ?case
    using log_loop_commit [OF o h] by (simp add: log_lines_def p)
next
  case (3 h t m p r rs h0)
  then have o: "objects s h = Some (JSON_stringify (commit_json t m [] (JString p)))"
    and h: "h \<noteq> []" and p: "p = fst r"
    by (simp_all add: stored_def del: JSON_stringify.simps)
  let ?s = "s\<lparr>console := console s @
       [Separator, LogCommit h (Some (JString t)) (Some (JString m))]\<rparr>"
  have st: "stored ?s (r # rs)" using "3.prems"(1) by (simp add: stored_def del: JSON_stringify.simps)
  have li: "linked (r # rs) h0" using "3.prems"(2) by simp
  have ne: "\<forall>x \<in> set (r # rs). fst x \<noteq> []" using "3.prems"(3) by simp
  have "log_loop (Some (JString h)) s = log_loop (Some (JString (fst r))) ?s"
    using log_loop_commit [OF o h] by (simp add: p)
  also have "\<dots> = log_loop (Some (JString h0)) (?s\<lparr>console := console ?s @ log_lines (r # rs)\<rparr>)"
    using "3.IH" [OF st li ne] by simp
  finally show ?case by (simp add: log_lines_def)
qed

lemma linked_last: "linked rs h0 \<Longrightarrow> rs \<noteq> [] \<Longrightarrow> snd (snd (snd (last rs))) = h0"
  by (induction rs h0 rule: linked.induct) auto

lemma chain_hashes_nonempty:
  "hex_digest sha1 \<Longrightarrow> \<forall>r \<in> set (chain sha1 h0 cs). fst r \<noteq> []"
  by (induction cs arbitrary: h0)
    (auto simp add: hashObject_def hex_digest_nonempty simp del: JSON_stringify.simps)

lemma two_commits_distinct:
  "distinct (map fst (chain toy_digest []
     [(''2024-01-01T00:00:00.000Z'', ''c1''), (''2024-01-02T00:00:00.000Z'', ''c2'')]))"
  by (simp add: hashObject_def toy_digest_def hex2_def hexdigit_def commit_json_def index_json_def quote_def
        escape_char_def del: commit_fold entry_fold)

subsection \<open>A history in the store\<close>

lemma history_objects:
  "objects s' = objects s \<Longrightarrow> history s' cs par = history s cs par"
  by (induction s cs par rule: history.induct) (simp_all add: holds_def del: JSON_stringify.simps)

lemma log_loop_history:
  assumes "history s cs par" and "cs \<noteq> []" and "plain par"
  shows "log_loop (Some (JString (fst (hd cs)))) s =
         log_loop (Some par) (s\<lparr>console := console s @ history_lines cs\<rparr>)"
  using assms
proof (induction cs arbitrary: s)
  case Nil
  then show ?case by simp
next
  case (Cons c cs)
  note prems = Cons.prems and IH = Cons.IH
  obtain h t m es where c: "c = (h, t, m, es)" by (cases c) auto
  show ?case
  proof (cases cs)
    case Nil
    then have o: "objects s h = Some (JSON_stringify (commit_json t m es par))"
      and h: "h \<noteq> []"
      using prems(1) c by (simp_all add: holds_def plain_name_def del: JSON_stringify.simps)
    show ?thesis
      using log_loop_commit [OF o h prems(3)] by (simp add: history_lines_def c Nil)
  next
    case (Cons d ds)
    then have o: "objects s h = Some (JSON_stringify (commit_json t m es (JString (fst d))))"
      and h: "h \<noteq> []" and r: "history s cs par"
      using prems(1) c by (simp_all add: holds_def plain_name_def del: JSON_stringify.simps)
    let ?s = "s\<lparr>console := console s @
       [Separator, LogCommit h (Some (JString t)) (Some (JString m))]\<rparr>"
    have "objects ?s = objects s" by simp
    then have hi: "history ?s cs par" using r history_objects [of ?s s cs par] by simp
    have ne: "cs \<noteq> []" using Cons by simp
    have "plain (JString (fst d))" by simp
    from log_loop_commit [OF o h this]
    have "log_loop (Some (JString h)) s = log_loop (Some (JString (fst (hd cs)))) ?s"
      by (simp add: Cons)
    also have "\<dots> = log_loop (Some par) (?s\<lparr>console := console ?s @ history_lines cs\<rparr>)"
      using hi ne prems(3) by (rule IH)
    finally show ?thesis by (simp add: history_lines_def c)
  qed
qed

section \<open>The claims\<close>

text \<open>
  C1. On an initialised repository whose index holds \<open>es\<close> and whose \<open>HEAD\<close> holds
  \<open>h0\<close>, \<open>add f\<close> of a readable file and then \<open>commit m\<close> both succeed. Afterwards
  the index is the empty array, and \<open>HEAD\<close> is the hash of a stored record that parses
  back to a commit whose \<open>files\<close> are the entries staged just before the commit (the old
  ones, then the new one, with the hash of the text \<open>add\<close> read from the file) and whose
  \<open>parent\<close> is what \<open>getCurrentHead\<close> returned just before the commit.
\<close>

theorem add_then_commit:
  assumes "initialised s es" and "head_file s = Some h0" and "work s f = Some bytes"
    and "hex_digest sha1"
  shows "let c = utf8_decode bytes;
             e = (f, hashObject sha1 c);
             rj = commit_json now m (es @ [e]) (JString h0);
             rt = JSON_stringify rj;
             s1 = snd (add sha1 f s);
             s2 = snd (commit sha1 now m s1)
         in fst (add sha1 f s) = Inr () \<and>
            staged s1 = Some (index_json (es @ [e])) \<and>
            getCurrentHead s1 = (Inr (JString h0), s1) \<and>
            fst (commit sha1 now m s1) = Inr () \<and>
            staged s2 = Some (JArray []) \<and>
            head_file s2 = Some (hashObject sha1 rt) \<and>
            objects s2 (hashObject sha1 rt) = Some rt \<and>
            JSON_parse rt = Some rj \<and>
            get_prop rj ''files'' = Inr (staged s1) \<and>
            get_prop rj ''parent'' = Inr (Some (JString h0))"
proof -
  let ?c = "utf8_decode bytes"
  let ?e = "(f, sha1 ?c)"
  let ?s1 = "s\<lparr>objects := (objects s)(sha1 ?c \<mapsto> ?c),
               index_file := Some (JSON_stringify (index_json (es @ [?e]))),
               console := console s @ [Printed (sha1 ?c), Added f]\<rparr>"
  have a: "add sha1 f s = (Inr (), ?s1)"
    using assms by (intro add_initialised hex_digest_nonempty)
  have i1: "initialised ?s1 (es @ [?e])"
    using assms(1) by (rule initialised_after_add)
  have h1: "head_file ?s1 = Some h0" using assms(2) by simp
  have c: "commit sha1 now m ?s1 = (Inr (), ?s1\<lparr>objects := (objects ?s1)
                 (sha1 (JSON_stringify (commit_json now m (es @ [?e]) (JString h0))) \<mapsto>
                  JSON_stringify (commit_json now m (es @ [?e]) (JString h0))),
               head_file := Some (sha1 (JSON_stringify (commit_json now m (es @ [?e]) (JString h0)))),
               index_file := Some (JSON_stringify (index_json [])),
               console := console ?s1 @
                 [CommitCreated (sha1 (JSON_stringify (commit_json now m (es @ [?e]) (JString h0))))]\<rparr>)"
    using assms(4) by (intro commit_initialised [OF i1 h1] hex_digest_nonempty)
  have g: "getCurrentHead ?s1 = (Inr (JString h0), ?s1)"
    using assms(2) by (simp add: getCurrentHead_def io_defs)
  show ?thesis
    unfolding Let_def a c hashObject_def snd_conv fst_conv
    using g
    by (simp add: staged_def index_json_Nil parse_empty_array
          del: JSON_stringify.simps utf8_decode.simps)
qed

theorem add_then_commit_witness:
  "let c = utf8_decode ''hello\<newline>'';
       e = (''a.txt'', hashObject toy_digest c);
       rj = commit_json ''2024-01-01T00:00:00.000Z'' ''c1'' ([] @ [e]) (JString []);
       rt = JSON_stringify rj;
       s1 = snd (add toy_digest ''a.txt'' (snd (init (fresh [''a.txt'' \<mapsto> ''hello\<newline>'']))));
       s2 = snd (commit toy_digest ''2024-01-01T00:00:00.000Z'' ''c1'' s1)
   in fst (add toy_digest ''a.txt'' (snd (init (fresh [''a.txt'' \<mapsto> ''hello\<newline>''])))) = Inr () \<and>
      staged s1 = Some (index_json ([] @ [e])) \<and>
      getCurrentHead s1 = (Inr (JString []), s1) \<and>
      fst (commit toy_digest ''2024-01-01T00:00:00.000Z'' ''c1'' s1) = Inr () \<and>
      staged s2 = Some (JArray []) \<and>
      head_file s2 = Some (hashObject toy_digest rt) \<and>
      objects s2 (hashObject toy_digest rt) = Some rt \<and>
      JSON_parse rt = Some rj \<and>
      get_prop rj ''files'' = Inr (staged s1) \<and>
      get_prop rj ''parent'' = Inr (Some (JString []))"
proof -
  have w: "work (snd (init (fresh [''a.txt'' \<mapsto> ''hello\<newline>'']))) ''a.txt'' = Some ''hello\<newline>''"
    by (simp add: init_fresh)
  show ?thesis
    by (rule add_then_commit [OF initialised_init_fresh head_init_fresh w hex_digest_toy])
qed

text \<open>
  C2, on the code. After \<open>init\<close> on a fresh directory and a run of one or more commits
  whose hashes differ from one another, \<open>log\<close> returns and prints exactly one record for
  each commit, the newest first; each record is in the store with the hash of the next
  record as its \<open>parent\<close>. The \<open>parent\<close> of the oldest record is the empty string, the
  text of the \<open>HEAD\<close> that \<open>init\<close> created, and not \<open>null\<close>.
\<close>

theorem log_after_commits:
  assumes "hex_digest sha1" and "distinct (map fst (chain sha1 [] cs))" and "cs \<noteq> []"
  shows "let s = commits sha1 cs (snd (init (fresh w)));
             rs = chain sha1 [] cs
         in log s = Some (Inr (), s\<lparr>console := console s @ log_lines rs\<rparr>) \<and>
            length rs = length cs \<and>
            stored s rs \<and>
            linked rs [] \<and>
            snd (snd (snd (last rs))) = [] \<and>
            JString (snd (snd (snd (last rs)))) \<noteq> JNull"
proof -
  let ?s = "commits sha1 cs (snd (init (fresh w)))"
  let ?rs = "chain sha1 [] cs"
  note inv = commits_chain [OF assms(1) initialised_init_fresh head_init_fresh assms(2), of w]
  have hd: "head_file ?s = Some (case ?rs of [] \<Rightarrow> [] | r # _ \<Rightarrow> fst r)"
    and st: "stored ?s ?rs" and li: "linked ?rs []" and len: "length ?rs = length cs"
    using inv by blast+
  have ne: "\<forall>r \<in> set ?rs. fst r \<noteq> []"
    using assms(1) by (rule chain_hashes_nonempty)
  have "log ?s = log_loop (Some (JString (case ?rs of [] \<Rightarrow> [] | r # _ \<Rightarrow> fst r))) ?s"
    using hd by (rule log_at_head)
  also have "\<dots> = log_loop (Some (JString [])) (?s\<lparr>console := console ?s @ log_lines ?rs\<rparr>)"
    using st li ne by (rule log_loop_chain)
  also have "\<dots> = Some (Inr (), ?s\<lparr>console := console ?s @ log_lines ?rs\<rparr>)"
    by (simp add: log_loop_stop)
  finally have lg: "log ?s = Some (Inr (), ?s\<lparr>console := console ?s @ log_lines ?rs\<rparr>)" .
  have "?rs \<noteq> []" using len assms(3) by auto
  then have la: "snd (snd (snd (last ?rs))) = []" using li by (intro linked_last)
  show ?thesis unfolding Let_def using lg len st li la by simp
qed

theorem log_after_commits_witness:
  "let s = commits toy_digest
             [(''2024-01-01T00:00:00.000Z'', ''c1''), (''2024-01-02T00:00:00.000Z'', ''c2'')]
             (snd (init (fresh Map.empty)));
       rs = chain toy_digest []
             [(''2024-01-01T00:00:00.000Z'', ''c1''), (''2024-01-02T00:00:00.000Z'', ''c2'')]
   in log s = Some (Inr (), s\<lparr>console := console s @ log_lines rs\<rparr>) \<and>
      length rs = length [(''2024-01-01T00:00:00.000Z'', ''c1''), (''2024-01-02T00:00:00.000Z'', ''c2'')] \<and>
      stored s rs \<and>
      linked rs [] \<and>
      snd (snd (snd (last rs))) = [] \<and>
      JString (snd (snd (snd (last rs)))) \<noteq> JNull"
  by (rule log_after_commits [OF hex_digest_toy two_commits_distinct]) simp


text \<open>
  C3, as amended. When \<open>h\<close> is a plain name, as every hex digest is, and the store holds
  no object at all under \<open>h\<close>, \<open>showCommitDiff h\<close> reports the failed read, prints
  "Commit not found" and returns normally, leaving the files of the repository alone.
\<close>

theorem show_unknown_hash:
  "plain_name h \<Longrightarrow> objects s h = None \<Longrightarrow>
   showCommitDiff h s =
     (Inr (), s\<lparr>console := console s @ [FailedToRead ENOENT, CommitNotFound]\<rparr>)"
  by (simp add: showCommitDiff_def getCommitData_missing parse_nullable_def io_bind_def
       lift_def parse_text_def console_log_def plain_name_def)

theorem show_unknown_hash_witness:
  "plain_name ''0000000000000000000000000000000000000000'' \<and>
   objects blob_repo ''0000000000000000000000000000000000000000'' = None \<and>
   showCommitDiff ''0000000000000000000000000000000000000000'' blob_repo =
     (Inr (), blob_repo\<lparr>console := console blob_repo @ [FailedToRead ENOENT, CommitNotFound]\<rparr>)"
  using show_unknown_hash [of "''0000000000000000000000000000000000000000''" blob_repo]
  by (simp add: blob_repo_def plain_name_def)

text \<open>
  C3 as stated fails for a hash that addresses a blob: the hash is a plain name and the
  blob is no commit object, yet \<open>showCommitDiff\<close> hands its text to \<open>JSON.parse\<close>, which
  raises \<open>SyntaxError\<close>.
\<close>

theorem show_blob_hash_raises:
  "plain_name ''f572d396fae9206628714fb2ce00f72e94f2258f'' \<and>
   \<not> addresses_commit blob_repo ''f572d396fae9206628714fb2ce00f72e94f2258f'' \<and>
   showCommitDiff ''f572d396fae9206628714fb2ce00f72e94f2258f'' blob_repo
     = (Inl SyntaxError, blob_repo)"
  by (simp add: addresses_commit_def showCommitDiff_def getCommitData_def as_path_def
        parse_nullable_def io_defs blob_repo_def parse_hello plain_name_def
      del: JSON_stringify.simps)

text \<open>
  C4. \<open>add p\<close> twice before a commit (the file may change in between) and then
  \<open>commit\<close>: the stored record lists \<open>p\<close> twice, after the entries staged before, with
  the hash of each of the two texts \<open>add\<close> read. And when the parent of a commit lists \<open>p\<close> more
  than once, \<open>getParentFileContent\<close> returns the blob of the first entry for \<open>p\<close>, and
  \<open>showCommitDiff\<close> prints the diff against that blob.
\<close>

theorem duplicate_staging:
  assumes "initialised s es" and "head_file s = Some h0" and "work s p = Some c1"
    and "hex_digest sha1"
    and "objects r h = Some (JSON_stringify (commit_json t m' [(p, b)] (JString ph)))"
    and "h \<noteq> []" and "objects r b = Some c'" and "b \<noteq> []" and "ph \<noteq> []"
    and "objects r ph = Some (JSON_stringify (commit_json t1 m1 (es1 @ (p, b1) # es2) par))"
    and "par = JNull \<or> par = JString pp"
    and "p \<notin> set (map fst es1)" and "b1 \<noteq> []" and "objects r b1 = Some c"
  shows "(let d1 = utf8_decode c1;
              d2 = utf8_decode c2;
              s1 = snd (add sha1 p s);
              s1' = s1\<lparr>work := (work s1)(p \<mapsto> c2)\<rparr>;
              s2 = snd (add sha1 p s1');
              s3 = snd (commit sha1 now m s2);
              rj = commit_json now m
                     (es @ [(p, hashObject sha1 d1), (p, hashObject sha1 d2)]) (JString h0);
              rt = JSON_stringify rj
          in fst (add sha1 p s) = Inr () \<and>
             fst (add sha1 p s1') = Inr () \<and>
             staged s2 = Some (index_json
               (es @ [(p, hashObject sha1 d1), (p, hashObject sha1 d2)])) \<and>
             fst (commit sha1 now m s2) = Inr () \<and>
             head_file s3 = Some (hashObject sha1 rt) \<and>
             objects s3 (hashObject sha1 rt) = Some rt \<and>
             JSON_parse rt = Some rj \<and>
             get_prop rj ''files'' = Inr (staged s2)) \<and>
         getParentFileContent (commit_json t1 m1 (es1 @ (p, b1) # es2) par) (Some (JString p)) r
           = (Inr (Some c), r) \<and>
         showCommitDiff h r =
           (Inr (), r\<lparr>console := console r @
              [ChangesHeader, FileHeader (Some (JString p)), Content c',
               DiffHeader, DiffLines c c', NewLine]\<rparr>)"
proof -
  let ?d1 = "utf8_decode c1" and ?d2 = "utf8_decode c2"
  let ?e1 = "(p, sha1 ?d1)" and ?e2 = "(p, sha1 ?d2)"
  let ?s1 = "s\<lparr>objects := (objects s)(sha1 ?d1 \<mapsto> ?d1),
               index_file := Some (JSON_stringify (index_json (es @ [?e1]))),
               console := console s @ [Printed (sha1 ?d1), Added p]\<rparr>"
  let ?s1' = "?s1\<lparr>work := (work ?s1)(p \<mapsto> c2)\<rparr>"
  let ?s2 = "?s1'\<lparr>objects := (objects ?s1')(sha1 ?d2 \<mapsto> ?d2),
               index_file := Some (JSON_stringify (index_json ((es @ [?e1]) @ [?e2]))),
               console := console ?s1' @ [Printed (sha1 ?d2), Added p]\<rparr>"
  let ?rt = "JSON_stringify (commit_json now m ((es @ [?e1]) @ [?e2]) (JString h0))"
  have a1: "add sha1 p s = (Inr (), ?s1)"
    using assms(1,3,4) by (intro add_initialised hex_digest_nonempty)
  have i1: "initialised ?s1' (es @ [?e1])"
    using assms(1) by (simp add: initialised_def del: JSON_stringify.simps)
  have w1: "work ?s1' p = Some c2" by simp
  have a2: "add sha1 p ?s1' = (Inr (), ?s2)"
    using assms(4) by (intro add_initialised [OF i1 w1] hex_digest_nonempty)
  have i2: "initialised ?s2 ((es @ [?e1]) @ [?e2])"
    using assms(1) by (simp add: initialised_def del: JSON_stringify.simps)
  have h2: "head_file ?s2 = Some h0" using assms(2) by simp
  have c: "commit sha1 now m ?s2 = (Inr (), ?s2\<lparr>objects := (objects ?s2)(sha1 ?rt \<mapsto> ?rt),
               head_file := Some (sha1 ?rt),
               index_file := Some (JSON_stringify (index_json [])),
               console := console ?s2 @ [CommitCreated (sha1 ?rt)]\<rparr>)"
    using assms(4) by (intro commit_initialised [OF i2 h2] hex_digest_nonempty)
  have A: "let d1 = utf8_decode c1;
              d2 = utf8_decode c2;
              s1 = snd (add sha1 p s);
              s1' = s1\<lparr>work := (work s1)(p \<mapsto> c2)\<rparr>;
              s2 = snd (add sha1 p s1');
              s3 = snd (commit sha1 now m s2);
              rj = commit_json now m
                     (es @ [(p, hashObject sha1 d1), (p, hashObject sha1 d2)]) (JString h0);
              rt = JSON_stringify rj
          in fst (add sha1 p s) = Inr () \<and>
             fst (add sha1 p s1') = Inr () \<and>
             staged s2 = Some (index_json
               (es @ [(p, hashObject sha1 d1), (p, hashObject sha1 d2)])) \<and>
             fst (commit sha1 now m s2) = Inr () \<and>
             head_file s3 = Some (hashObject sha1 rt) \<and>
             objects s3 (hashObject sha1 rt) = Some rt \<and>
             JSON_parse rt = Some rj \<and>
             get_prop rj ''files'' = Inr (staged s2)"
    unfolding Let_def a1 snd_conv fst_conv a2 c hashObject_def
    by (simp add: staged_def del: JSON_stringify.simps utf8_decode.simps)
  have pl: "plain par" using assms(11) by auto
  have B: "getParentFileContent (commit_json t1 m1 (es1 @ (p, b1) # es2) par) (Some (JString p)) r
           = (Inr (Some c), r)"
    by (rule getParentFileContent_first [OF assms(12-14)])
  let ?r = "r\<lparr>console := console r @ [ChangesHeader]\<rparr>"
  have f: "show_file (commit_json t m' [(p, b)] (JString ph)) (entry_json (p, b)) ?r =
           (Inr (), ?r\<lparr>console := console ?r @
              [FileHeader (Some (JString p)), Content c', DiffHeader, DiffLines c c', NewLine]\<rparr>)"
    using assms(7-10) pl assms(12-14) by (intro show_file_diff) simp_all
  have C: "showCommitDiff h r =
           (Inr (), r\<lparr>console := console r @
              [ChangesHeader, FileHeader (Some (JString p)), Content c',
               DiffHeader, DiffLines c c', NewLine]\<rparr>)"
  proof -
    have "plain (JString ph)" by simp
    from show_commit_unfold [OF assms(5,6) this] show ?thesis
      by (simp add: io_bind_def io_return_def f)
  qed
  show ?thesis using A B C by blast
qed

theorem duplicate_staging_witness:
  "(let d1 = utf8_decode ''one'';
        d2 = utf8_decode ''two'';
        s1 = snd (add toy_digest ''a.txt'' a_txt_repo);
        s1' = s1\<lparr>work := (work s1)(''a.txt'' \<mapsto> ''two'')\<rparr>;
        s2 = snd (add toy_digest ''a.txt'' s1');
        s3 = snd (commit toy_digest ''2024-01-01T00:00:00.000Z'' ''c1'' s2);
        rj = commit_json ''2024-01-01T00:00:00.000Z'' ''c1''
               ([] @ [(''a.txt'', hashObject toy_digest d1),
                      (''a.txt'', hashObject toy_digest d2)]) (JString []);
        rt = JSON_stringify rj
    in fst (add toy_digest ''a.txt'' a_txt_repo) = Inr () \<and>
       fst (add toy_digest ''a.txt'' s1') = Inr () \<and>
       staged s2 = Some (index_json
         ([] @ [(''a.txt'', hashObject toy_digest d1),
                (''a.txt'', hashObject toy_digest d2)])) \<and>
       fst (commit toy_digest ''2024-01-01T00:00:00.000Z'' ''c1'' s2) = Inr () \<and>
       head_file s3 = Some (hashObject toy_digest rt) \<and>
       objects s3 (hashObject toy_digest rt) = Some rt \<and>
       JSON_parse rt = Some rj \<and>
       get_prop rj ''files'' = Inr (staged s2)) \<and>
   getParentFileContent
       (commit_json ''2024-01-01T00:00:00.000Z'' ''c1''
          ([] @ (''a.txt'', ''aaaaaaaaaaaaaaaaaaaaaaaaaaaaaaaaaaaaaaaa'') #
             [(''a.txt'', ''bbbbbbbbbbbbbbbbbbbbbbbbbbbbbbbbbbbbbbbb'')]) (JString []))
       (Some (JString ''a.txt'')) twice_repo
     = (Inr (Some ''one''), twice_repo) \<and>
   showCommitDiff ''3333333333333333333333333333333333333333'' twice_repo =
     (Inr (), twice_repo\<lparr>console := console twice_repo @
        [ChangesHeader, FileHeader (Some (JString ''a.txt'')), Content ''three'',
         DiffHeader, DiffLines ''one'' ''three'', NewLine]\<rparr>)"
proof -
  have i: "initialised a_txt_repo []"
    unfolding a_txt_repo_def by (rule initialised_init_fresh)
  have h: "head_file a_txt_repo = Some []"
    unfolding a_txt_repo_def by (rule head_init_fresh)
  have w: "work a_txt_repo ''a.txt'' = Some ''one''"
    by (simp add: a_txt_repo_def init_fresh)
  have o3: "objects twice_repo ''3333333333333333333333333333333333333333'' =
      Some (JSON_stringify (commit_json ''2024-01-02T00:00:00.000Z'' ''c2''
            [(''a.txt'', ''cccccccccccccccccccccccccccccccccccccccc'')]
            (JString ''2222222222222222222222222222222222222222'')))"
    by (simp add: twice_repo_def del: JSON_stringify.simps)
  have o2: "objects twice_repo ''2222222222222222222222222222222222222222'' =
      Some (JSON_stringify (commit_json ''2024-01-01T00:00:00.000Z'' ''c1''
            ([] @ (''a.txt'', ''aaaaaaaaaaaaaaaaaaaaaaaaaaaaaaaaaaaaaaaa'') #
             [(''a.txt'', ''bbbbbbbbbbbbbbbbbbbbbbbbbbbbbbbbbbbbbbbb'')]) (JString [])))"
    by (simp add: twice_repo_def del: JSON_stringify.simps)
  have oc: "objects twice_repo ''cccccccccccccccccccccccccccccccccccccccc'' = Some ''three''"
    by (simp add: twice_repo_def del: JSON_stringify.simps)
  have oa: "objects twice_repo ''aaaaaaaaaaaaaaaaaaaaaaaaaaaaaaaaaaaaaaaa'' = Some ''one''"
    by (simp add: twice_repo_def del: JSON_stringify.simps)
  show ?thesis
    by (rule duplicate_staging [OF i h w hex_digest_toy o3 _ oc _ _ o2 _ _ _ oa]) simp_all
qed


text \<open>
  C5, as amended. \<open>log\<close> on a history in the store, of any length, that starts at
  \<open>HEAD\<close>: when the parent of its last commit is a plain name without an object, \<open>log\<close>
  prints every commit of the history and then raises \<open>ENOENT\<close>, the error of the failed
  read; when that parent is \<open>null\<close> or empty, \<open>log\<close> prints them and returns normally.
  \<open>showCommitDiff h\<close> on a stored commit record raises an error when a blob it lists has
  no object, and when that blob is the first file's, the error is \<open>ENOENT\<close>, raised after
  the header of the file is printed.
\<close>

theorem dangling_reference_errors:
  assumes "history s cs par" and "cs \<noteq> []" and "head_file s = Some (fst (hd cs))"
    and "objects s h = Some (JSON_stringify (commit_json t m es q))" and "plain_name h"
    and "q = JNull \<or> q = JString pp"
  shows
    "(par = JString p \<and> plain_name p \<and> objects s p = None \<longrightarrow>
        log s = Some (Inl ENOENT, s\<lparr>console := console s @ history_lines cs\<rparr>)) \<and>
     (par = JNull \<or> par = JString [] \<longrightarrow>
        log s = Some (Inr (), s\<lparr>console := console s @ history_lines cs\<rparr>)) \<and>
     ((\<exists>f b. (f, b) \<in> set es \<and> plain_name b \<and> objects s b = None) \<longrightarrow>
        (\<exists>e. fst (showCommitDiff h s) = Inl e)) \<and>
     (\<forall>f b rest. es = (f, b) # rest \<and> plain_name b \<and> objects s b = None \<longrightarrow>
        showCommitDiff h s = (Inl ENOENT, s\<lparr>console := console s @
          [ChangesHeader, FileHeader (Some (JString f))]\<rparr>))"
proof -
  have pl: "plain q" using assms(6) by auto
  have hne: "h \<noteq> []" using assms(5) by (rule plain_name_nonempty)
  note sh = show_commit_unfold [OF assms(4) hne pl]
  let ?s1 = "s\<lparr>console := console s @ history_lines cs\<rparr>"
  have l: "plain par \<Longrightarrow> log s = log_loop (Some par) ?s1"
    using log_loop_history [OF assms(1,2)] by (simp add: log_at_head [OF assms(3)])
  have a: "par = JString p \<and> plain_name p \<and> objects s p = None \<longrightarrow>
        log s = Some (Inl ENOENT, ?s1)"
    using l by (auto simp add: log_loop_missing plain_name_nonempty)
  have b: "par = JNull \<or> par = JString [] \<longrightarrow> log s = Some (Inr (), ?s1)"
    using l by (auto simp add: log_loop_stop)
  have c: "(\<exists>f b. (f, b) \<in> set es \<and> plain_name b \<and> objects s b = None) \<longrightarrow>
        (\<exists>e. fst (showCommitDiff h s) = Inl e)"
  proof (intro impI, elim exE conjE)
    fix f b assume "(f, b) \<in> set es" and "objects s b = None"
    then show "\<exists>e. fst (showCommitDiff h s) = Inl e"
      unfolding sh by (intro show_files_blob_fails) simp_all
  qed
  have d: "\<forall>f b rest. es = (f, b) # rest \<and> plain_name b \<and> objects s b = None \<longrightarrow>
        showCommitDiff h s = (Inl ENOENT, s\<lparr>console := console s @
          [ChangesHeader, FileHeader (Some (JString f))]\<rparr>)"
    unfolding sh by (auto simp add: show_file_missing_blob io_bind_def plain_name_nonempty)
  show ?thesis using a b c d by blast
qed

theorem dangling_reference_errors_witness:
  "log deep_dangling_repo = Some (Inl ENOENT, deep_dangling_repo\<lparr>console :=
      [Separator, LogCommit ''3333333333333333333333333333333333333333''
         (Some (JString ''2024-01-02T00:00:00.000Z'')) (Some (JString ''c2'')),
       Separator, LogCommit ''1111111111111111111111111111111111111111''
         (Some (JString ''2024-01-01T00:00:00.000Z'')) (Some (JString ''m''))]\<rparr>) \<and>
   showCommitDiff ''1111111111111111111111111111111111111111'' dangling_blob_repo
     = (Inl ENOENT, dangling_blob_repo\<lparr>console :=
          [ChangesHeader, FileHeader (Some (JString ''a.txt''))]\<rparr>) \<and>
   log root_commit_repo = Some (Inr (), root_commit_repo\<lparr>console :=
      [Separator, LogCommit ''1111111111111111111111111111111111111111''
         (Some (JString ''2024-01-01T00:00:00.000Z'')) (Some (JString ''m''))]\<rparr>)"
proof -
  let ?g = "''3333333333333333333333333333333333333333''"
  let ?h = "''1111111111111111111111111111111111111111''"
  let ?p = "''2222222222222222222222222222222222222222''"
  let ?b = "''f572d396fae9206628714fb2ce00f72e94f2258f''"
  let ?t = "''2024-01-01T00:00:00.000Z''"
  let ?c1 = "(?h, ?t, ''m'', [(''a.txt'', ?b)])"
  let ?c2 = "(?g, ''2024-01-02T00:00:00.000Z'', ''c2'', [])"
  let ?c0 = "(?h, ?t, ''m'', [])"
  have pn: "plain_name ?h" "plain_name ?p" "plain_name ?b"
    by (simp_all add: plain_name_def)
  have o1: "objects deep_dangling_repo ?h = Some (JSON_stringify
      (commit_json ?t ''m'' [(''a.txt'', ?b)] (JString ?p)))"
    by (simp add: deep_dangling_repo_def one_file_commit_def del: JSON_stringify.simps)
  have o2: "objects dangling_blob_repo ?h = Some (JSON_stringify
      (commit_json ?t ''m'' [(''a.txt'', ?b)] (JString ?p)))"
    by (simp add: dangling_blob_repo_def one_file_commit_def del: JSON_stringify.simps)
  have o3: "objects root_commit_repo ?h = Some (JSON_stringify (commit_json ?t ''m'' [] JNull))"
    by (simp add: root_commit_repo_def del: JSON_stringify.simps)
  have h1: "history deep_dangling_repo [?c2, ?c1] (JString ?p)"
    by (simp add: holds_def plain_name_def deep_dangling_repo_def one_file_commit_def
          del: JSON_stringify.simps)
  have h2: "history dangling_blob_repo [?c1] (JString ?p)"
    using o2 by (simp add: holds_def plain_name_def del: JSON_stringify.simps)
  have h3: "history root_commit_repo [?c0] JNull"
    using o3 by (simp add: holds_def plain_name_def del: JSON_stringify.simps)
  have f1: "head_file deep_dangling_repo = Some (fst (hd [?c2, ?c1]))"
    "objects deep_dangling_repo ?p = None" "console deep_dangling_repo = []"
    by (simp_all add: deep_dangling_repo_def dangling_repo_def del: JSON_stringify.simps)
  have f2: "head_file dangling_blob_repo = Some (fst (hd [?c1]))"
    "objects dangling_blob_repo ?b = None" "console dangling_blob_repo = []"
    by (simp_all add: dangling_blob_repo_def dangling_repo_def del: JSON_stringify.simps)
  have f3: "head_file root_commit_repo = Some (fst (hd [?c0]))" "console root_commit_repo = []"
    by (simp_all add: root_commit_repo_def dangling_repo_def del: JSON_stringify.simps)
  have a: "log deep_dangling_repo = Some (Inl ENOENT, deep_dangling_repo\<lparr>console :=
      [Separator, LogCommit ?g (Some (JString ''2024-01-02T00:00:00.000Z'')) (Some (JString ''c2'')),
       Separator, LogCommit ?h (Some (JString ?t)) (Some (JString ''m''))]\<rparr>)"
    using dangling_reference_errors [where p = ?p and pp = ?p, OF h1 _ f1(1) o1 pn(1)] pn f1
    by (simp add: history_lines_def)
  have b: "showCommitDiff ?h dangling_blob_repo = (Inl ENOENT, dangling_blob_repo\<lparr>console :=
          [ChangesHeader, FileHeader (Some (JString ''a.txt''))]\<rparr>)"
    using dangling_reference_errors [where p = ?p and pp = ?p, OF h2 _ f2(1) o2 pn(1)] pn f2
    by simp
  have c: "log root_commit_repo = Some (Inr (), root_commit_repo\<lparr>console :=
      [Separator, LogCommit ?h (Some (JString ?t)) (Some (JString ''m''))]\<rparr>)"
    using dangling_reference_errors [where p = ?p and pp = ?p, OF h3 _ f3(1) o3 pn(1)] f3
    by (simp add: history_lines_def)
  show ?thesis using a b c by blast
qed


text \<open>
  C5 as stated fails: no error of the program is a CorruptHistory error. With the
  parent of the commit at \<open>HEAD\<close> missing, \<open>log\<close> prints the commit and raises \<open>ENOENT\<close>;
  with the blob of a listed file missing, \<open>showCommitDiff\<close> raises \<open>ENOENT\<close>; and
  \<open>ENOENT\<close> is what \<open>add\<close> raises for a working file that is not there.
\<close>

theorem dangling_reference_raises_enoent:
  "objects dangling_parent_repo ''2222222222222222222222222222222222222222'' = None \<and>
   log dangling_parent_repo = Some (Inl ENOENT, dangling_parent_repo\<lparr>console :=
      [Separator, LogCommit ''1111111111111111111111111111111111111111''
         (Some (JString ''2024-01-01T00:00:00.000Z'')) (Some (JString ''m''))]\<rparr>) \<and>
   objects dangling_blob_repo ''f572d396fae9206628714fb2ce00f72e94f2258f'' = None \<and>
   showCommitDiff ''1111111111111111111111111111111111111111'' dangling_blob_repo
     = (Inl ENOENT, dangling_blob_repo\<lparr>console :=
          [ChangesHeader, FileHeader (Some (JString ''a.txt''))]\<rparr>) \<and>
   add toy_digest ''missing.txt'' dangling_parent_repo = (Inl ENOENT, dangling_parent_repo)"
proof -
  let ?h = "''1111111111111111111111111111111111111111''"
  let ?p = "''2222222222222222222222222222222222222222''"
  let ?b = "''f572d396fae9206628714fb2ce00f72e94f2258f''"
  let ?t = "''2024-01-01T00:00:00.000Z''"
  have o1: "objects dangling_parent_repo ?h = Some (JSON_stringify
      (commit_json ?t ''m'' [(''a.txt'', ?b)] (JString ?p)))"
    by (simp add: dangling_parent_repo_def one_file_commit_def del: JSON_stringify.simps)
  have o2: "objects dangling_blob_repo ?h = Some (JSON_stringify
      (commit_json ?t ''m'' [(''a.txt'', ?b)] (JString ?p)))"
    by (simp add: dangling_blob_repo_def one_file_commit_def del: JSON_stringify.simps)
  have f1: "head_file dangling_parent_repo = Some ?h" "objects dangling_parent_repo ?p = None"
    "console dangling_parent_repo = []" "work dangling_parent_repo ''missing.txt'' = None"
    by (simp_all add: dangling_parent_repo_def dangling_repo_def del: JSON_stringify.simps)
  have f2: "objects dangling_blob_repo ?b = None" "console dangling_blob_repo = []"
    by (simp_all add: dangling_blob_repo_def dangling_repo_def del: JSON_stringify.simps)
  have pl: "plain (JString ?p)" by simp
  let ?s1 = "dangling_parent_repo\<lparr>console := console dangling_parent_repo @
      [Separator, LogCommit ?h (Some (JString ?t)) (Some (JString ''m''))]\<rparr>"
  have "log dangling_parent_repo = log_loop (Some (JString ?p)) ?s1"
    unfolding log_at_head [OF f1(1)] by (rule log_loop_commit [OF o1 _ pl]) simp
  also have "\<dots> = Some (Inl ENOENT, ?s1)"
    by (rule log_loop_missing) (simp_all add: f1)
  finally have a: "log dangling_parent_repo = Some (Inl ENOENT, dangling_parent_repo\<lparr>console :=
      [Separator, LogCommit ?h (Some (JString ?t)) (Some (JString ''m''))]\<rparr>)"
    by (simp add: f1)
  have sh: "showCommitDiff ?h dangling_blob_repo =
      show_files (commit_json ?t ''m'' [(''a.txt'', ?b)] (JString ?p))
        (map entry_json [(''a.txt'', ?b)])
        (dangling_blob_repo\<lparr>console := console dangling_blob_repo @ [ChangesHeader]\<rparr>)"
    by (rule show_commit_unfold [OF o2 _ pl]) simp
  have b: "showCommitDiff ?h dangling_blob_repo = (Inl ENOENT, dangling_blob_repo\<lparr>console :=
          [ChangesHeader, FileHeader (Some (JString ''a.txt''))]\<rparr>)"
    unfolding sh using f2 by (simp add: show_file_missing_blob io_bind_def)
  have c: "add toy_digest ''missing.txt'' dangling_parent_repo = (Inl ENOENT, dangling_parent_repo)"
    using f1(4) by (simp add: add_def io_defs)
  show ?thesis using f1(2) a f2(1) b c by blast
qed


text \<open>
  C6, as amended. \<open>add\<close> reads the file as UTF-8 text, every ill-formed byte sequence
  becoming U+FFFD, and stores that text under \<open>hashObject\<close> of that text alone: the same
  bytes staged from any path, in any repository, go under the same name, and reading that
  name back with \<open>getFileContent\<close> returns the text unchanged (the text is well-formed
  UTF-8, which reading as UTF-8 leaves as it is). The text is the content of the file
  exactly when the content is well-formed UTF-8.
\<close>

theorem hash_content_roundtrip:
  assumes "work s f = Some c" and "objects_dir s" and "hex_digest sha1"
    and "work s' f' = Some c" and "objects_dir s'"
  shows "let t = utf8_decode c
         in objects (snd (add sha1 f s)) = (objects s)(hashObject sha1 t \<mapsto> t) \<and>
            objects (snd (add sha1 f' s')) = (objects s')(hashObject sha1 t \<mapsto> t) \<and>
            getFileContent (Some (JString (hashObject sha1 t))) (snd (add sha1 f s))
              = (Inr t, snd (add sha1 f s)) \<and>
            utf8_decode t = t \<and>
            (t = c) = valid_utf8 c"
proof -
  have "objects (snd (add sha1 f s)) =
          (objects s)(hashObject sha1 (utf8_decode c) \<mapsto> utf8_decode c) \<and>
        objects (snd (add sha1 f' s')) =
          (objects s')(hashObject sha1 (utf8_decode c) \<mapsto> utf8_decode c) \<and>
        getFileContent (Some (JString (hashObject sha1 (utf8_decode c)))) (snd (add sha1 f s))
          = (Inr (utf8_decode c), snd (add sha1 f s))"
    using assms hex_digest_nonempty [of sha1 "utf8_decode c"]
    by (auto simp add: add_def updateStagingArea_def getFileContent_def as_path_def
          array_push_def hashObject_def io_defs Let_def
        simp del: JSON_stringify.simps utf8_decode.simps split: option.splits json.splits)
  moreover have "(utf8_decode c = c) = valid_utf8 c"
    using utf8_decode_valid [of c] valid_utf8_decode [of c] by auto
  ultimately show ?thesis
    unfolding Let_def using utf8_decode_idem [of c] by blast
qed

theorem hash_content_roundtrip_witness:
  "valid_utf8 ''hello\<newline>'' \<and>
   (let t = utf8_decode ''hello\<newline>''
    in objects (snd (add toy_digest ''a.txt'' blob_repo))
         = (objects blob_repo)(hashObject toy_digest t \<mapsto> t) \<and>
       objects (snd (add toy_digest ''b.txt''
           (blob_repo\<lparr>work := [''b.txt'' \<mapsto> ''hello\<newline>''], objects := Map.empty\<rparr>)))
         = Map.empty(hashObject toy_digest t \<mapsto> t) \<and>
       getFileContent (Some (JString (hashObject toy_digest t)))
           (snd (add toy_digest ''a.txt'' blob_repo))
         = (Inr t, snd (add toy_digest ''a.txt'' blob_repo)) \<and>
       utf8_decode t = t \<and>
       t = ''hello\<newline>'')"
proof -
  let ?r = "blob_repo\<lparr>work := [''b.txt'' \<mapsto> ''hello\<newline>''], objects := Map.empty\<rparr>"
  have w: "work blob_repo ''a.txt'' = Some ''hello\<newline>''" by (simp add: blob_repo_def)
  have d: "objects_dir blob_repo" by (simp add: blob_repo_def)
  have w': "work ?r ''b.txt'' = Some ''hello\<newline>''" by simp
  have d': "objects_dir ?r" by (simp add: blob_repo_def)
  have v: "valid_utf8 ''hello\<newline>''" by (simp add: well_formed_at_def)
  have e: "objects ?r = Map.empty" by simp
  show ?thesis
    using hash_content_roundtrip [OF w d hex_digest_toy w' d'] v
    unfolding Let_def e by blast
qed

text \<open>
  C6 as stated fails for a file that is not UTF-8: \<open>b.bin\<close> holds the bytes \<open>FF FE 41\<close>,
  and what \<open>add\<close> stores, and \<open>getFileContent\<close> returns, is \<open>EF BF BD EF BF BD 41\<close>, under
  the hash of those seven bytes; under the hash of the content of the file there is
  nothing.
\<close>

theorem add_binary_file_not_roundtrip:
  "work binary_repo ''b.bin'' = Some [CHR 0xFF, CHR 0xFE, CHR ''A''] \<and>
   objects (snd (add toy_digest ''b.bin'' binary_repo))
     = [hashObject toy_digest [CHR 0xEF, CHR 0xBF, CHR 0xBD, CHR 0xEF, CHR 0xBF, CHR 0xBD, CHR ''A'']
          \<mapsto> [CHR 0xEF, CHR 0xBF, CHR 0xBD, CHR 0xEF, CHR 0xBF, CHR 0xBD, CHR ''A'']] \<and>
   getFileContent
       (Some (JString (hashObject toy_digest
          [CHR 0xEF, CHR 0xBF, CHR 0xBD, CHR 0xEF, CHR 0xBF, CHR 0xBD, CHR ''A''])))
       (snd (add toy_digest ''b.bin'' binary_repo))
     = (Inr [CHR 0xEF, CHR 0xBF, CHR 0xBD, CHR 0xEF, CHR 0xBF, CHR 0xBD, CHR ''A''],
        snd (add toy_digest ''b.bin'' binary_repo)) \<and>
   objects (snd (add toy_digest ''b.bin'' binary_repo))
     (hashObject toy_digest [CHR 0xFF, CHR 0xFE, CHR ''A'']) = None"
proof -
  let ?c = "[CHR 0xFF, CHR 0xFE, CHR ''A'']"
  let ?t = "[CHR 0xEF, CHR 0xBF, CHR 0xBD, CHR 0xEF, CHR 0xBF, CHR 0xBD, CHR ''A'']"
  have dec: "utf8_decode ?c = ?t"
    by (simp add: utf8_step_def in_range_def replacement_def)
  have i: "initialised binary_repo []"
    unfolding binary_repo_def by (rule initialised_init_fresh)
  have w: "work binary_repo ''b.bin'' = Some ?c"
    by (simp add: binary_repo_def init_fresh)
  have o: "objects binary_repo = Map.empty"
    by (simp add: binary_repo_def init_fresh)
  have n: "toy_digest (utf8_decode ?c) \<noteq> []"
    using hex_digest_toy by (rule hex_digest_nonempty)
  have "add toy_digest ''b.bin'' binary_repo =
    (Inr (), binary_repo\<lparr>objects := (objects binary_repo)
         (toy_digest (utf8_decode ?c) \<mapsto> utf8_decode ?c),
       index_file := Some (JSON_stringify
         (index_json ([] @ [(''b.bin'', toy_digest (utf8_decode ?c))]))),
       console := console binary_repo @
         [Printed (toy_digest (utf8_decode ?c)), Added ''b.bin'']\<rparr>)"
    using i w n by (rule add_initialised)
  then have a: "add toy_digest ''b.bin'' binary_repo =
    (Inr (), binary_repo\<lparr>objects := [toy_digest ?t \<mapsto> ?t],
       index_file := Some (JSON_stringify (index_json ([] @ [(''b.bin'', toy_digest ?t)]))),
       console := console binary_repo @ [Printed (toy_digest ?t), Added ''b.bin'']\<rparr>)"
    unfolding dec o .
  have nt: "toy_digest ?t \<noteq> []" using hex_digest_toy by (rule hex_digest_nonempty)
  have ne: "toy_digest ?c \<noteq> toy_digest ?t" by (simp add: toy_digest_def hex2_def hexdigit_def)
  have od: "objects_dir binary_repo" by (simp add: binary_repo_def init_fresh)
  show ?thesis
    unfolding a hashObject_def snd_conv
    using w nt ne od
    by (simp add: getFileContent_def as_path_def io_defs del: JSON_stringify.simps)
qed

text \<open>
  C7. \<open>init\<close> on a fresh directory succeeds and leaves \<open>HEAD\<close> empty, the index the
  empty array and no object. On any repository \<open>init\<close> succeeds, leaves the objects as
  they were, and leaves \<open>HEAD\<close> and the index as they were when they exist; so a second
  \<open>init\<close> changes none of the three.
\<close>

theorem init_fresh_then_idempotent:
  "fst (init (fresh w)) = Inr () \<and>
   head_file (snd (init (fresh w))) = Some [] \<and>
   staged (snd (init (fresh w))) = Some (JArray []) \<and>
   objects (snd (init (fresh w))) = Map.empty \<and>
   fst (init s) = Inr () \<and>
   objects (snd (init s)) = objects s \<and>
   (head_file s \<noteq> None \<longrightarrow>
      head_file (snd (init s)) = head_file s \<and> index_file (snd (init s)) = index_file s) \<and>
   (index_file s \<noteq> None \<longrightarrow> index_file (snd (init s)) = index_file s) \<and>
   head_file (snd (init (snd (init s)))) = head_file (snd (init s)) \<and>
   index_file (snd (init (snd (init s)))) = index_file (snd (init s)) \<and>
   objects (snd (init (snd (init s)))) = objects (snd (init s))"
proof -
  have a: "fst (init (fresh w)) = Inr () \<and>
   head_file (snd (init (fresh w))) = Some [] \<and>
   staged (snd (init (fresh w))) = Some (JArray []) \<and>
   objects (snd (init (fresh w))) = Map.empty"
    using parse_empty_array
    by (simp add: init_fresh staged_def index_json_Nil del: JSON_stringify.simps)
  have b: "\<And>s. fst (init s) = Inr () \<and>
   objects (snd (init s)) = objects s \<and>
   (head_file s \<noteq> None \<longrightarrow>
      head_file (snd (init s)) = head_file s \<and> index_file (snd (init s)) = index_file s) \<and>
   (index_file s \<noteq> None \<longrightarrow> index_file (snd (init s)) = index_file s)"
    by (auto simp add: init_def io_defs simp del: JSON_stringify.simps)
  have c: "head_file (snd (init (snd (init s)))) = head_file (snd (init s)) \<and>
   index_file (snd (init (snd (init s)))) = index_file (snd (init s)) \<and>
   objects (snd (init (snd (init s)))) = objects (snd (init s))"
    using b [of "snd (init s)"] init_head_exists [of s] by blast
  show ?thesis using a b [of s] c by blast
qed

theorem init_fresh_then_idempotent_witness:
  "head_file staged_repo = Some [] \<and>
   index_file staged_repo
     = Some (JSON_stringify (index_json [(''a.txt'', toy_digest ''one'')])) \<and>
   fst (init staged_repo) = Inr () \<and>
   head_file (snd (init staged_repo)) = head_file staged_repo \<and>
   index_file (snd (init staged_repo)) = index_file staged_repo \<and>
   objects (snd (init staged_repo)) = objects staged_repo"
proof -
  have h: "head_file staged_repo = Some []"
    unfolding staged_repo_eq by (simp add: a_txt_repo_def init_fresh)
  have i: "index_file staged_repo
     = Some (JSON_stringify (index_json [(''a.txt'', toy_digest ''one'')]))"
    unfolding staged_repo_eq by (simp del: JSON_stringify.simps)
  show ?thesis
    using init_fresh_then_idempotent [of Map.empty staged_repo] h i by simp
qed

text \<open>
  C8. With an empty index \<open>commit\<close> succeeds: it stores a commit record whose \<open>files\<close>
  are the empty array, sets \<open>HEAD\<close> to the hash of the record, and the index is the
  empty array afterwards.
\<close>

theorem commit_empty_index:
  assumes "initialised s []" and "head_file s = Some h0" and "hex_digest sha1"
  shows "let rj = commit_json now m [] (JString h0);
             rt = JSON_stringify rj;
             s2 = snd (commit sha1 now m s)
         in fst (commit sha1 now m s) = Inr () \<and>
            objects s2 (hashObject sha1 rt) = Some rt \<and>
            JSON_parse rt = Some rj \<and>
            is_commit_record rj \<and>
            get_prop rj ''files'' = Inr (Some (JArray [])) \<and>
            head_file s2 = Some (hashObject sha1 rt) \<and>
            staged s2 = Some (JArray [])"
proof -
  have c: "commit sha1 now m s = (Inr (), s\<lparr>objects := (objects s)
                 (sha1 (JSON_stringify (commit_json now m [] (JString h0))) \<mapsto>
                  JSON_stringify (commit_json now m [] (JString h0))),
               head_file := Some (sha1 (JSON_stringify (commit_json now m [] (JString h0)))),
               index_file := Some (JSON_stringify (index_json [])),
               console := console s @
                 [CommitCreated (sha1 (JSON_stringify (commit_json now m [] (JString h0))))]\<rparr>)"
    using assms(3) by (intro commit_initialised [OF assms(1,2)] hex_digest_nonempty)
  have r: "is_commit_record (commit_json now m [] (JString h0))"
    by (simp add: is_commit_record_def commit_json_def del: commit_fold)
  show ?thesis
    unfolding Let_def c hashObject_def snd_conv fst_conv
    using r by (simp add: staged_def index_json_Nil parse_empty_array del: JSON_stringify.simps)
qed

theorem commit_empty_index_witness:
  "let rj = commit_json ''2024-01-01T00:00:00.000Z'' ''empty'' [] (JString []);
       rt = JSON_stringify rj;
       s2 = snd (commit toy_digest ''2024-01-01T00:00:00.000Z'' ''empty'' (snd (init (fresh Map.empty))))
   in fst (commit toy_digest ''2024-01-01T00:00:00.000Z'' ''empty'' (snd (init (fresh Map.empty)))) = Inr () \<and>
      objects s2 (hashObject toy_digest rt) = Some rt \<and>
      JSON_parse rt = Some rj \<and>
      is_commit_record rj \<and>
      get_prop rj ''files'' = Inr (Some (JArray [])) \<and>
      head_file s2 = Some (hashObject toy_digest rt) \<and>
      staged s2 = Some (JArray [])"
  by (rule commit_empty_index [OF initialised_init_fresh head_init_fresh hex_digest_toy])

text \<open>
  C9. A commit made while \<open>HEAD\<close> exists and is empty stores the empty string as its
  \<open>parent\<close>, not \<open>null\<close>. \<open>log\<close> prints that commit and stops there, and
  \<open>showCommitDiff\<close> prints "First commit" for every file of it (the blobs of the staged
  entries being in the store).
\<close>

theorem first_commit_empty_parent:
  assumes "initialised s es" and "head_file s = Some []" and "hex_digest sha1"
    and "\<forall>e \<in> set es. snd e \<noteq> [] \<and> objects s (snd e) \<noteq> None"
  shows "let rj = commit_json now m es (JString []);
             rt = JSON_stringify rj;
             H = hashObject sha1 rt;
             s2 = snd (commit sha1 now m s)
         in fst (commit sha1 now m s) = Inr () \<and>
            head_file s2 = Some H \<and>
            objects s2 H = Some rt \<and>
            JSON_parse rt = Some rj \<and>
            get_prop rj ''parent'' = Inr (Some (JString [])) \<and>
            JString [] \<noteq> JNull \<and>
            log s2 = Some (Inr (), s2\<lparr>console := console s2 @
              [Separator, LogCommit H (Some (JString now)) (Some (JString m))]\<rparr>) \<and>
            showCommitDiff H s2 =
              (Inr (), s2\<lparr>console := console s2 @ ChangesHeader # first_commit_lines s2 es\<rparr>) \<and>
            length (filter (\<lambda>ev. ev = FirstCommit) (first_commit_lines s2 es)) = length es"
proof -
  let ?rj = "commit_json now m es (JString [])"
  let ?rt = "JSON_stringify ?rj"
  let ?H = "sha1 ?rt"
  let ?s2 = "s\<lparr>objects := (objects s)(?H \<mapsto> ?rt), head_file := Some ?H,
               index_file := Some (JSON_stringify (index_json [])),
               console := console s @ [CommitCreated ?H]\<rparr>"
  have H: "?H \<noteq> []" using assms(3) by (rule hex_digest_nonempty)
  have c: "commit sha1 now m s = (Inr (), ?s2)"
    using assms(1,2) H by (rule commit_initialised)
  have o: "objects ?s2 ?H = Some ?rt" by simp
  have hd: "head_file ?s2 = Some ?H" by simp
  have blobs: "\<forall>e \<in> set es. snd e \<noteq> [] \<and> objects ?s2 (snd e) \<noteq> None"
    using assms(4) by simp
  have l: "log ?s2 = Some (Inr (), ?s2\<lparr>console := console ?s2 @
              [Separator, LogCommit ?H (Some (JString now)) (Some (JString m))]\<rparr>)"
    unfolding log_at_head [OF hd]
    by (subst log_loop_commit [OF o H]) (simp_all add: log_loop_stop)
  let ?s3 = "?s2\<lparr>console := console ?s2 @ [ChangesHeader]\<rparr>"
  have blobs3: "\<forall>e \<in> set es. snd e \<noteq> [] \<and> objects ?s3 (snd e) \<noteq> None"
    using assms(4) by simp
  have f: "show_files ?rj (map entry_json es) ?s3 =
     (Inr (), ?s3\<lparr>console := console ?s3 @ first_commit_lines ?s3 es\<rparr>)"
    by (rule show_files_first_commit [OF blobs3 get_prop_commit(4)]) simp
  have e: "first_commit_lines ?s3 es = first_commit_lines ?s2 es"
    by (simp add: first_commit_lines_def)
  have sh: "showCommitDiff ?H ?s2 =
              (Inr (), ?s2\<lparr>console := console ?s2 @ ChangesHeader # first_commit_lines ?s2 es\<rparr>)"
  proof -
    have "plain (JString [])" by simp
    from show_commit_unfold [OF o H this] show ?thesis
      unfolding f e by simp
  qed
  have n: "length (filter (\<lambda>ev. ev = FirstCommit) (first_commit_lines ?s2 es)) = length es"
    using blobs by (intro first_commit_lines_count) simp
  show ?thesis
    unfolding Let_def c hashObject_def snd_conv fst_conv
    using l sh n by (simp del: JSON_stringify.simps)
qed

theorem first_commit_empty_parent_witness:
  "let rj = commit_json ''2024-01-01T00:00:00.000Z'' ''c1'' [(''a.txt'', toy_digest ''one'')] (JString []);
       rt = JSON_stringify rj;
       H = hashObject toy_digest rt;
       s2 = snd (commit toy_digest ''2024-01-01T00:00:00.000Z'' ''c1'' staged_repo)
   in fst (commit toy_digest ''2024-01-01T00:00:00.000Z'' ''c1'' staged_repo) = Inr () \<and>
      head_file s2 = Some H \<and>
      objects s2 H = Some rt \<and>
      JSON_parse rt = Some rj \<and>
      get_prop rj ''parent'' = Inr (Some (JString [])) \<and>
      JString [] \<noteq> JNull \<and>
      log s2 = Some (Inr (), s2\<lparr>console := console s2 @
        [Separator, LogCommit H (Some (JString ''2024-01-01T00:00:00.000Z'')) (Some (JString ''c1''))]\<rparr>) \<and>
      showCommitDiff H s2 =
        (Inr (), s2\<lparr>console := console s2 @
           ChangesHeader # first_commit_lines s2 [(''a.txt'', toy_digest ''one'')]\<rparr>) \<and>
      length (filter (\<lambda>ev. ev = FirstCommit)
        (first_commit_lines s2 [(''a.txt'', toy_digest ''one'')]))
        = length [(''a.txt'', toy_digest ''one'')]"
proof -
  have n: "toy_digest ''one'' \<noteq> []" using hex_digest_toy by (rule hex_digest_nonempty)
  have i: "initialised staged_repo [(''a.txt'', toy_digest ''one'')]"
    unfolding staged_repo_eq
    by (simp add: initialised_def a_txt_repo_def init_fresh del: JSON_stringify.simps)
  have h: "head_file staged_repo = Some []"
    unfolding staged_repo_eq by (simp add: a_txt_repo_def init_fresh)
  have b: "\<forall>e \<in> set [(''a.txt'', toy_digest ''one'')]. snd e \<noteq> [] \<and> objects staged_repo (snd e) \<noteq> None"
    unfolding staged_repo_eq using n by simp
  show ?thesis
    by (rule first_commit_empty_parent [OF i h hex_digest_toy b])
qed


text \<open>
  C10. \<open>add\<close> on a path that cannot be read raises the error of the read and leaves the
  repository as it was: no object is written and the index is not touched.
\<close>

theorem add_unreadable_atomic:
  "work s f = None \<Longrightarrow>
   add sha1 f s = (Inl ENOENT, s) \<and>
   objects (snd (add sha1 f s)) = objects s \<and>
   index_file (snd (add sha1 f s)) = index_file s"
  by (simp add: add_def io_defs)

theorem add_unreadable_atomic_witness:
  "work blob_repo ''b.txt'' = None \<and>
   add toy_digest ''b.txt'' blob_repo = (Inl ENOENT, blob_repo) \<and>
   objects (snd (add toy_digest ''b.txt'' blob_repo)) = objects blob_repo \<and>
   index_file (snd (add toy_digest ''b.txt'' blob_repo)) = index_file blob_repo"
  using add_unreadable_atomic [of blob_repo "''b.txt''" toy_digest]
  by (simp add: blob_repo_def)

end
